theory Spec2Isabelle
  imports Complex_Main
begin

section \<open>Values of the Python program\<close>

text \<open>
  The class \<^verbatim>\<open>HyndmanKhandakar\<close> of \<^verbatim>\<open>hyndman_khandakar.py\<close> works on three kinds
  of numbers. Integers are Python \<^verbatim>\<open>int\<close>s in the seed list and numpy \<^verbatim>\<open>int64\<close>s
  when they come out of \<^verbatim>\<open>np.arange\<close>; the two differ in what \<^verbatim>\<open>/\<close> does on a zero
  divisor, so every integer carries its runtime type. The orders of a run are far below
  the 64-bit range, so \<^verbatim>\<open>int64\<close> arithmetic is written without wrap-around.
  Floats that the code adds, divides or compares with \<^verbatim>\<open>np.inf\<close> range over
  \<open>pyfloat\<close>: a finite value is an exact real (rounding is not modelled), and the two
  infinities and NaN are values of their own with the IEEE comparison.
\<close>

datatype pyint = PyInt int | NpInt int

fun ival :: "pyint \<Rightarrow> int" where
  "ival (PyInt i) = i"
| "ival (NpInt i) = i"

fun is_np :: "pyint \<Rightarrow> bool" where
  "is_np (PyInt i) = False"
| "is_np (NpInt i) = True"

definition py_arith :: "(int \<Rightarrow> int \<Rightarrow> int) \<Rightarrow> pyint \<Rightarrow> pyint \<Rightarrow> pyint" where
  "py_arith f a b =
     (if is_np a \<or> is_np b then NpInt (f (ival a) (ival b)) else PyInt (f (ival a) (ival b)))"

definition py_add :: "pyint \<Rightarrow> pyint \<Rightarrow> pyint" where
  "py_add = py_arith (+)"

definition py_sub :: "pyint \<Rightarrow> pyint \<Rightarrow> pyint" where
  "py_sub = py_arith (-)"

definition py_mul :: "pyint \<Rightarrow> pyint \<Rightarrow> pyint" where
  "py_mul = py_arith (*)"

datatype pyfloat = Fin real | PInf | NInf | NaN

datatype exn = AttributeError | ZeroDivisionError | ValueError | OtherError

text \<open>IEEE addition, with exact arithmetic on finite values.\<close>

fun fadd :: "pyfloat \<Rightarrow> pyfloat \<Rightarrow> pyfloat" where
  "fadd (Fin a) (Fin b) = Fin (a + b)"
| "fadd NaN y = NaN"
| "fadd x NaN = NaN"
| "fadd PInf NInf = NaN"
| "fadd NInf PInf = NaN"
| "fadd PInf y = PInf"
| "fadd x PInf = PInf"
| "fadd NInf y = NInf"
| "fadd x NInf = NInf"

text \<open>IEEE \<^verbatim>\<open><\<close> and \<^verbatim>\<open><=\<close>: false as soon as one side is NaN.\<close>

fun flt :: "pyfloat \<Rightarrow> pyfloat \<Rightarrow> bool" where
  "flt (Fin a) (Fin b) = (a < b)"
| "flt NaN y = False"
| "flt x NaN = False"
| "flt x NInf = False"
| "flt PInf y = False"
| "flt NInf y = True"
| "flt x PInf = True"

fun fle :: "pyfloat \<Rightarrow> pyfloat \<Rightarrow> bool" where
  "fle (Fin a) (Fin b) = (a \<le> b)"
| "fle NaN y = False"
| "fle x NaN = False"
| "fle NInf y = True"
| "fle x PInf = True"
| "fle x NInf = False"
| "fle PInf y = False"

text \<open>
  \<^verbatim>\<open>a / b\<close> on integers. Two Python \<^verbatim>\<open>int\<close>s: true division, ZeroDivisionError on a
  zero divisor. As soon as one operand is a numpy \<^verbatim>\<open>int64\<close>: numpy's true division,
  which on a zero divisor only warns (numpy's default error state) and returns an
  infinity, or NaN for \<^verbatim>\<open>0 / 0\<close>.
\<close>

definition py_truediv :: "pyint \<Rightarrow> pyint \<Rightarrow> exn + pyfloat" where
  "py_truediv a b =
     (if ival b \<noteq> 0 then Inr (Fin (real_of_int (ival a) / real_of_int (ival b)))
      else if \<not> (is_np a \<or> is_np b) then Inl ZeroDivisionError
      else if 0 < ival a then Inr PInf
      else if ival a < 0 then Inr NInf
      else Inr NaN)"

section \<open>The object\<close>

text \<open>
  The result of \<^verbatim>\<open>sm.tsa.ARIMA(...).fit(...)\<close>, of which the code reads \<^verbatim>\<open>aic\<close>,
  \<^verbatim>\<open>arroots\<close> and \<^verbatim>\<open>maroots\<close>.
\<close>

record arima_results =
  aic :: pyfloat
  arroots :: "complex list"
  maroots :: "complex list"

text \<open>The dictionary \<^verbatim>\<open>self.order\<close>, with its four keys.\<close>

record order_dict =
  order_p :: pyint
  order_d :: pyint
  order_q :: pyint
  order_trend :: string

text \<open>
  The attributes of a \<^verbatim>\<open>HyndmanKhandakar\<close> object. \<open>self_d\<close> is the attribute
  \<^verbatim>\<open>self.d\<close>, which an object may lack (\<open>None\<close>); \<open>warned\<close> collects the messages
  given to \<^verbatim>\<open>warn\<close>.
\<close>

record hk =
  ts :: "real list"
  alpha :: real
  conditions :: "int \<times> real"
  full_search :: bool
  verbose :: int
  model :: "arima_results option"
  order :: order_dict
  aicc :: pyfloat
  p_values :: "int \<rightharpoonup> real \<times> real"
  self_d :: "pyint option"
  warned :: "string list"

text \<open>
  \<^verbatim>\<open>__init__\<close> (lines 51 to 61): nine assignments. No attribute \<^verbatim>\<open>d\<close> is created.
\<close>

definition hk_init :: "real list \<Rightarrow> real \<Rightarrow> int \<times> real \<Rightarrow> bool \<Rightarrow> int \<Rightarrow> hk" where
  "hk_init series a conds fs vb =
     \<lparr> ts = series, alpha = a, conditions = conds, full_search = fs, verbose = vb,
       model = None,
       order = \<lparr> order_p = PyInt 0, order_d = PyInt 0, order_q = PyInt 0,
                 order_trend = ''nc'' \<rparr>,
       aicc = PInf,
       p_values = Map.empty,
       self_d = None,
       warned = [] \<rparr>"

text \<open>
  The call \<^verbatim>\<open>HyndmanKhandakar(ts, alpha, conditions, full_search, verbose)\<close>: it runs
  \<^verbatim>\<open>__init__\<close>, whose body has no check and no \<^verbatim>\<open>raise\<close>, and returns the object.
\<close>

definition HyndmanKhandakar ::
  "real list \<Rightarrow> real \<Rightarrow> int \<times> real \<Rightarrow> bool \<Rightarrow> int \<Rightarrow> exn + hk" where
  "HyndmanKhandakar series a conds fs vb = Inr (hk_init series a conds fs vb)"

section \<open>The AICc correction\<close>

type_synonym order3 = "pyint \<times> pyint \<times> pyint"

text \<open>\<^verbatim>\<open>_correct_aic\<close> (lines 113 to 115).\<close>

definition hk_correct_aic :: "hk \<Rightarrow> order3 \<Rightarrow> string \<Rightarrow> pyfloat \<Rightarrow> exn + pyfloat" where
  "hk_correct_aic self ord trend a =
     (let k = (if trend = ''c'' then PyInt 1 else PyInt 0);
          n = py_add (py_add (py_add (fst ord) (snd (snd ord))) k) (PyInt 1)
      in case py_truediv (py_mul (py_mul (PyInt 2) n) (py_add n (PyInt 1)))
                         (py_sub (py_sub (PyInt (int (length (ts self)))) n) (PyInt 1)) of
           Inl e \<Rightarrow> Inl e
         | Inr c \<Rightarrow> Inr (fadd a c))"

text \<open>
  The parameter count \<open>m = p + q + k + 1\<close> and the sample size \<open>n\<close> in the words of the
  specification, to state what \<open>hk_correct_aic\<close> computes.
\<close>

definition param_count :: "order3 \<Rightarrow> string \<Rightarrow> int" where
  "param_count ord trend =
     ival (fst ord) + ival (snd (snd ord)) + (if trend = ''c'' then 1 else 0) + 1"

definition sample_size :: "hk \<Rightarrow> int" where
  "sample_size self = int (length (ts self))"

section \<open>Evaluating one candidate\<close>

text \<open>
  The fitting collaborator \<^verbatim>\<open>sm.tsa.ARIMA(self.ts, order=order).fit(trend=trend, ...)\<close>
  either raises or returns a fitted model. Within one run the series, \<^verbatim>\<open>verbose\<close> and
  the keyword arguments are fixed, so it is a function \<open>fit\<close> of the order and the trend.
\<close>

datatype fit_result = Raises exn | Fitted arima_results

type_synonym fitter = "order3 \<Rightarrow> string \<Rightarrow> fit_result"

text \<open>\<^verbatim>\<open>all(np.abs(roots) > self.conditions[1])\<close>.\<close>

definition roots_outside :: "real \<Rightarrow> complex list \<Rightarrow> bool" where
  "roots_outside c rs = list_all (\<lambda>r. c < cmod r) rs"

text \<open>\<^verbatim>\<open>_fit\<close> (lines 128 to 140).\<close>

definition hk_fit :: "fitter \<Rightarrow> hk \<Rightarrow> order3 \<Rightarrow> string \<Rightarrow> exn + hk" where
  "hk_fit fit self ord trend =
     (case fit ord trend of
        Raises e \<Rightarrow> Inl e
      | Fitted m \<Rightarrow>
          (case hk_correct_aic self ord trend (aic m) of
             Inl e \<Rightarrow> Inl e
           | Inr c \<Rightarrow>
               if flt c (aicc self) then
                 let invertible = roots_outside (snd (conditions self)) (arroots m);
                     stationary = roots_outside (snd (conditions self)) (maroots m)
                 in if invertible \<and> stationary then
                      Inr (self\<lparr> model := Some m,
                                 order := (order self)\<lparr> order_p := fst ord,
                                                         order_d := fst (snd ord),
                                                         order_q := snd (snd ord),
                                                         order_trend := trend \<rparr>,
                                 aicc := c \<rparr>)
                    else Inr self
               else Inr self))"

text \<open>The object after the six assignments of lines 135 to 140.\<close>

definition accepted :: "hk \<Rightarrow> order3 \<Rightarrow> string \<Rightarrow> arima_results \<Rightarrow> pyfloat \<Rightarrow> hk" where
  "accepted self ord trend m c =
     self\<lparr> model := Some m,
            order := (order self)\<lparr> order_p := fst ord, order_d := fst (snd ord),
                                    order_q := snd (snd ord), order_trend := trend \<rparr>,
            aicc := c \<rparr>"

section \<open>The differencing degree\<close>

text \<open>\<^verbatim>\<open>ts.diff().dropna()\<close>: the differences of neighbours, one element shorter.\<close>

definition diff_dropna :: "real list \<Rightarrow> real list" where
  "diff_dropna xs = map (\<lambda>(x, y). y - x) (zip xs (tl xs))"

definition stationarize_warning :: string where
  "stationarize_warning =
     ''Failed to stationarize mean by differencing. Continuing with d = 2...''"

text \<open>
  The two test collaborators \<^verbatim>\<open>adfuller(ts)\<close> and \<^verbatim>\<open>kpss(ts, nlags="auto")\<close> either
  raise (they raise ValueError on a constant or too short series, for one) or return
  a result of which the code keeps the p-value.
\<close>

type_synonym tester = "real list \<Rightarrow> exn + real"

text \<open>
  The inner function \<^verbatim>\<open>_test\<close> (lines 70 to 84): \<^verbatim>\<open>adfuller\<close> is called first, then
  \<^verbatim>\<open>kpss\<close>, and an exception of either leaves \<^verbatim>\<open>_test\<close>, no handler being around
  them. Reading \<^verbatim>\<open>self.d\<close> on an object without that attribute raises AttributeError.
  The recursion has no bound of its own (an object whose \<^verbatim>\<open>d\<close> is above 2 never meets
  \<^verbatim>\<open>self.d == 2\<close>), so not returning is the value \<open>None\<close>.
\<close>

partial_function (option) hk_test ::
  "tester \<Rightarrow> tester \<Rightarrow> hk \<Rightarrow> real list \<Rightarrow> (exn + hk) option" where
  "hk_test adf kpss self series =
     (case adf series of
        Inl e \<Rightarrow> Some (Inl e)
      | Inr p_adf \<Rightarrow>
          (case kpss series of
             Inl e \<Rightarrow> Some (Inl e)
           | Inr p_kpss \<Rightarrow>
               if p_kpss < alpha self \<or> alpha self \<le> p_adf then
                 (case self_d self of
                    None \<Rightarrow> Some (Inl AttributeError)
                  | Some dv \<Rightarrow>
                      if ival dv = 2 then
                        Some (Inr (if verbose self \<noteq> 0
                                   then self\<lparr> warned := warned self @ [stationarize_warning] \<rparr>
                                   else self))
                      else
                        hk_test adf kpss
                          (self\<lparr> p_values := (p_values self)(ival dv \<mapsto> (p_adf, p_kpss)),
                                 self_d := Some (py_add dv (PyInt 1)) \<rparr>)
                          (diff_dropna series))
               else Some (Inr self)))"

text \<open>
  \<^verbatim>\<open>_get_differencing_degree\<close> (lines 86 to 91): both branches call \<^verbatim>\<open>_test(self.ts)\<close>;
  the first one only silences the collaborator's InterpolationWarning.
\<close>

definition hk_get_differencing_degree :: "tester \<Rightarrow> tester \<Rightarrow> hk \<Rightarrow> (exn + hk) option" where
  "hk_get_differencing_degree adf kpss self =
     (if \<not> (verbose self \<noteq> 0) then hk_test adf kpss self (ts self)
      else hk_test adf kpss self (ts self))"

section \<open>The search\<close>

type_synonym candidate = "order3 \<times> string"

text \<open>The seed loop (lines 169 to 173): only ValueError is caught.\<close>

fun fit_seeds :: "fitter \<Rightarrow> hk \<Rightarrow> candidate list \<Rightarrow> exn + hk" where
  "fit_seeds fit self [] = Inr self"
| "fit_seeds fit self ((ord, trend) # rest) =
     (case hk_fit fit self ord trend of
        Inl e \<Rightarrow> if e = ValueError then fit_seeds fit self rest else Inl e
      | Inr self' \<Rightarrow> fit_seeds fit self' rest)"

text \<open>
  \<^verbatim>\<open>(order, trend) in orders\<close>: Python compares the tuples with \<^verbatim>\<open>==\<close>, which on
  integers is equality of the values, whatever their runtime types.
\<close>

fun same_candidate :: "candidate \<Rightarrow> candidate \<Rightarrow> bool" where
  "same_candidate ((p, d, q), trend) ((p', d', q'), trend') =
     (ival p = ival p' \<and> ival d = ival d' \<and> ival q = ival q' \<and> trend = trend')"

definition in_orders :: "candidate \<Rightarrow> candidate list \<Rightarrow> bool" where
  "in_orders c orders = list_ex (same_candidate c) orders"

text \<open>
  The three nested \<^verbatim>\<open>for\<close> loops (lines 183 to 186) visit the candidates in this order;
  the \<^verbatim>\<open>continue\<close> of line 194 sits in the innermost loop, so it moves to the next
  element of this list.
\<close>

definition grid :: "pyint list \<Rightarrow> pyint \<Rightarrow> pyint list \<Rightarrow> candidate list" where
  "grid p_candidates d q_candidates =
     concat (map (\<lambda>p. concat (map (\<lambda>q. map (\<lambda>trend. ((p, d, q), trend)) [''c'', ''nc''])
                                     q_candidates))
                 p_candidates)"

text \<open>The body of the nested loops (lines 187 to 194), with the local list \<^verbatim>\<open>orders\<close>.\<close>

fun grid_loop :: "fitter \<Rightarrow> hk \<times> candidate list \<Rightarrow> candidate list \<Rightarrow> exn + hk \<times> candidate list" where
  "grid_loop fit (self, orders) [] = Inr (self, orders)"
| "grid_loop fit (self, orders) ((ord, trend) # rest) =
     (if in_orders (ord, trend) orders then grid_loop fit (self, orders) rest
      else
        (case hk_fit fit self ord trend of
           Inl e \<Rightarrow> if e = ValueError then grid_loop fit (self, orders) rest else Inl e
         | Inr self' \<Rightarrow> grid_loop fit (self', orders @ [(ord, trend)]) rest))"

text \<open>\<^verbatim>\<open>np.arange(lo, hi)\<close>: the numpy integers from \<open>lo\<close> up to \<open>hi - 1\<close>.\<close>

definition np_arange :: "int \<Rightarrow> int \<Rightarrow> pyint list" where
  "np_arange lo hi = map NpInt [lo..hi - 1]"

text \<open>
  The list comprehension of lines 176 and 177 (and of lines 180 and 181, the same text
  with \<^verbatim>\<open>q\<close> for \<^verbatim>\<open>p\<close>): the condition is
  \<^verbatim>\<open>not p < 0 or not p > self.conditions[0]\<close>.
\<close>

definition neighbors :: "hk \<Rightarrow> pyint \<Rightarrow> pyint list" where
  "neighbors self best =
     filter (\<lambda>p. \<not> ival p < 0 \<or> \<not> ival p > fst (conditions self))
            (np_arange (ival best - 1) (ival best + 2))"

definition seed_orders :: "pyint \<Rightarrow> candidate list" where
  "seed_orders d =
     (if ival d \<le> 1 then
        [((PyInt 0, d, PyInt 0), ''c''),
         ((PyInt 0, d, PyInt 0), ''nc''),
         ((PyInt 1, d, PyInt 0), ''c''),
         ((PyInt 0, d, PyInt 1), ''c''),
         ((PyInt 2, d, PyInt 2), ''c'')]
      else
        [((PyInt 0, d, PyInt 0), ''nc''),
         ((PyInt 1, d, PyInt 0), ''nc''),
         ((PyInt 0, d, PyInt 1), ''nc''),
         ((PyInt 2, d, PyInt 2), ''nc'')])"

text \<open>
  \<^verbatim>\<open>find\<close> (lines 142 to 194). The object after the call is the result; an exception
  that leaves \<^verbatim>\<open>find\<close> is \<open>Inl\<close>.
\<close>

definition hk_find :: "fitter \<Rightarrow> tester \<Rightarrow> tester \<Rightarrow> hk \<Rightarrow> (exn + hk) option" where
  "hk_find fit adf kpss self =
     (case hk_get_differencing_degree adf kpss self of
        None \<Rightarrow> None
      | Some (Inl e) \<Rightarrow> Some (Inl e)
      | Some (Inr self1) \<Rightarrow>
          (let d = order_d (order self1) in
           if full_search self1 then
             (let orders = [];
                  p_candidates = np_arange 0 (fst (conditions self1) + 1);
                  q_candidates = np_arange 0 (fst (conditions self1) + 1)
              in Some (map_sum id fst
                         (grid_loop fit (self1, orders) (grid p_candidates d q_candidates))))
           else
             (let orders = seed_orders d in
              case fit_seeds fit self1 orders of
                Inl e \<Rightarrow> Some (Inl e)
              | Inr self2 \<Rightarrow>
                  (let best_p = order_p (order self2);
                       p_candidates = neighbors self2 best_p;
                       best_q = order_q (order self2);
                       q_candidates = neighbors self2 best_q
                   in Some (map_sum id fst
                              (grid_loop fit (self2, orders)
                                 (grid p_candidates d q_candidates)))))))"

section \<open>The candidates that pass the root checks\<close>

text \<open>
  The AICc values of those candidates of a list whose fit returns a model, whose
  correction returns a value and whose AR and MA roots all pass the check of lines 132
  and 133, in the order of the list. It names what the incumbent is compared with.
\<close>

fun stable_aiccs :: "fitter \<Rightarrow> hk \<Rightarrow> candidate list \<Rightarrow> pyfloat list" where
  "stable_aiccs fit self [] = []"
| "stable_aiccs fit self ((ord, trend) # rest) =
     (case fit ord trend of
        Raises e \<Rightarrow> stable_aiccs fit self rest
      | Fitted m \<Rightarrow>
          (case hk_correct_aic self ord trend (aic m) of
             Inl e \<Rightarrow> stable_aiccs fit self rest
           | Inr c \<Rightarrow>
               if roots_outside (snd (conditions self)) (arroots m)
                  \<and> roots_outside (snd (conditions self)) (maroots m)
               then c # stable_aiccs fit self rest
               else stable_aiccs fit self rest))"

section \<open>An example run\<close>

text \<open>
  A fitting collaborator and an object on which the theorems below are evaluated: a
  series of 20 observations with the default \<^verbatim>\<open>alpha\<close> and \<^verbatim>\<open>conditions\<close>. Orders with
  \<open>p = 2\<close> raise ValueError, orders with \<open>p = 1\<close> give AIC 10 and roots 2 and 3, the
  other orders with \<open>q = 1\<close> give AIC 5 and an MA root of modulus 1, and the rest give
  AIC 20 and no root.
\<close>

definition example_fit :: fitter where
  "example_fit ord trend =
     (if ival (fst ord) = 2 then Raises ValueError
      else if ival (fst ord) = 1 then Fitted \<lparr> aic = Fin 10, arroots = [2], maroots = [3] \<rparr>
      else if ival (snd (snd ord)) = 1 then Fitted \<lparr> aic = Fin 5, arroots = [], maroots = [1] \<rparr>
      else Fitted \<lparr> aic = Fin 20, arroots = [], maroots = [] \<rparr>)"

definition example_self :: hk where
  "example_self = hk_init (replicate 20 0) (1 / 20) (5, 1001 / 1000) False 0"

text \<open>
  The same collaborator, except that at \<open>p = 1\<close> it raises an exception that is not a
  ValueError (a TypeError for an unknown keyword among \<^verbatim>\<open>fit_kargs\<close>, for one).
\<close>

definition example_fit_other :: fitter where
  "example_fit_other ord trend =
     (if ival (fst ord) = 1 then Raises OtherError else example_fit ord trend)"

section \<open>Properties of the AICc correction\<close>

lemma ival_py_arith [simp]: "ival (py_arith f a b) = f (ival a) (ival b)"
  by (simp add: py_arith_def)

lemma is_np_py_arith [simp]: "is_np (py_arith f a b) = (is_np a \<or> is_np b)"
  by (simp add: py_arith_def)

lemma consecutive_product_nonneg: "0 \<le> (m::int) * (m + 1)"
proof (cases "0 \<le> m")
  case True
  then show ?thesis by simp
next
  case False
  then have "m \<le> 0" and "m + 1 \<le> 0" by simp_all
  then show ?thesis by (rule mult_nonpos_nonpos)
qed

lemma py_truediv_nonzero:
  "ival b \<noteq> 0 \<Longrightarrow> py_truediv a b = Inr (Fin (real_of_int (ival a) / real_of_int (ival b)))"
  by (simp add: py_truediv_def)

lemma correct_aic_nonzero:
  assumes "sample_size self - param_count ord trend - 1 \<noteq> 0"
  shows "hk_correct_aic self ord trend a =
           Inr (fadd a (Fin (real_of_int (2 * param_count ord trend * (param_count ord trend + 1))
                             / real_of_int (sample_size self - param_count ord trend - 1))))"
proof -
  define k where "k = (if trend = ''c'' then PyInt 1 else PyInt 0)"
  define n where "n = py_add (py_add (py_add (fst ord) (snd (snd ord))) k) (PyInt 1)"
  define num where "num = py_mul (py_mul (PyInt 2) n) (py_add n (PyInt 1))"
  define den where "den = py_sub (py_sub (PyInt (int (length (ts self)))) n) (PyInt 1)"
  have n: "ival n = param_count ord trend"
    by (simp add: n_def k_def param_count_def py_add_def)
  have num: "ival num = 2 * param_count ord trend * (param_count ord trend + 1)"
    by (simp add: num_def py_mul_def py_add_def n)
  have den: "ival den = sample_size self - param_count ord trend - 1"
    by (simp add: den_def py_sub_def sample_size_def n)
  have "hk_correct_aic self ord trend a =
          (case py_truediv num den of Inl e \<Rightarrow> Inl e | Inr c \<Rightarrow> Inr (fadd a c))"
    by (simp add: hk_correct_aic_def Let_def num_def den_def n_def k_def)
  also have "py_truediv num den = Inr (Fin (real_of_int (ival num) / real_of_int (ival den)))"
    using assms by (simp add: py_truediv_nonzero den)
  finally show ?thesis by (simp only: num den sum.case)
qed

lemma fle_fadd_nonneg: "a \<noteq> NaN \<Longrightarrow> 0 \<le> c \<Longrightarrow> fle a (fadd a (Fin c))"
  by (cases a) simp_all

text \<open>
  C8. With \<open>k = 1\<close> for the trend \<^verbatim>\<open>"c"\<close> and \<open>0\<close> otherwise and \<open>m = p + q + k + 1\<close>, the
  corrector returns \<open>raw_aic + 2 * m * (m + 1) / (n - m - 1)\<close> wherever that quotient is
  defined, and when \<open>n - m - 1 > 0\<close> the value returned is at least \<open>raw_aic\<close>, for every
  raw AIC that is a number.
\<close>

theorem correct_aic_formula_and_lower_bound:
  "(sample_size self - param_count ord trend - 1 \<noteq> 0 \<longrightarrow>
      hk_correct_aic self ord trend (Fin r) =
        Inr (Fin (r + real_of_int (2 * param_count ord trend * (param_count ord trend + 1))
                      / real_of_int (sample_size self - param_count ord trend - 1))))
   \<and> (0 < sample_size self - param_count ord trend - 1 \<longrightarrow> a \<noteq> NaN \<longrightarrow>
      (\<exists>v. hk_correct_aic self ord trend a = Inr v \<and> fle a v))"
proof (intro conjI impI)
  assume "sample_size self - param_count ord trend - 1 \<noteq> 0"
  then show "hk_correct_aic self ord trend (Fin r) =
        Inr (Fin (r + real_of_int (2 * param_count ord trend * (param_count ord trend + 1))
                      / real_of_int (sample_size self - param_count ord trend - 1)))"
    by (simp add: correct_aic_nonzero)
next
  let ?m = "param_count ord trend"
  let ?c = "real_of_int (2 * ?m * (?m + 1)) / real_of_int (sample_size self - ?m - 1)"
  assume pos: "0 < sample_size self - ?m - 1" and num: "a \<noteq> NaN"
  have "0 \<le> 2 * (?m * (?m + 1))"
    using consecutive_product_nonneg [of ?m] by simp
  then have "0 \<le> 2 * ?m * (?m + 1)" by (simp add: mult.assoc)
  then have "0 \<le> real_of_int (2 * ?m * (?m + 1))" by (simp only: of_int_0_le_iff)
  moreover from pos have "0 < real_of_int (sample_size self - ?m - 1)" by simp
  ultimately have "0 \<le> ?c" by (rule divide_nonneg_pos)
  then have "fle a (fadd a (Fin ?c))" using num by (rule fle_fadd_nonneg [rotated])
  moreover from pos have "hk_correct_aic self ord trend a = Inr (fadd a (Fin ?c))"
    by (simp add: correct_aic_nonzero)
  ultimately show "\<exists>v. hk_correct_aic self ord trend a = Inr v \<and> fle a v" by simp
qed

theorem correct_aic_formula_and_lower_bound_witness:
  "sample_size (hk_init (replicate 10 0) (1 / 20) (5, 1001 / 1000) False 0)
     - param_count (PyInt 2, PyInt 0, PyInt 1) ''c'' - 1 \<noteq> 0
   \<and> 0 < sample_size (hk_init (replicate 10 0) (1 / 20) (5, 1001 / 1000) False 0)
         - param_count (PyInt 2, PyInt 0, PyInt 1) ''c'' - 1
   \<and> Fin 100 \<noteq> NaN
   \<and> hk_correct_aic (hk_init (replicate 10 0) (1 / 20) (5, 1001 / 1000) False 0)
         (PyInt 2, PyInt 0, PyInt 1) ''c'' (Fin 100) = Inr (Fin 115)
   \<and> (\<exists>v. hk_correct_aic (hk_init (replicate 10 0) (1 / 20) (5, 1001 / 1000) False 0)
              (PyInt 2, PyInt 0, PyInt 1) ''c'' (Fin 100) = Inr v \<and> fle (Fin 100) v)"
proof -
  let ?s = "hk_init (replicate 10 0) (1 / 20) (5, 1001 / 1000) False 0"
  have m: "param_count (PyInt 2, PyInt 0, PyInt 1) ''c'' = 5"
    by (simp add: param_count_def)
  have n: "sample_size ?s = 10"
    by (simp add: sample_size_def hk_init_def)
  from correct_aic_formula_and_lower_bound
         [of ?s "(PyInt 2, PyInt 0, PyInt 1)" "''c''" 100 "Fin 100"]
  show ?thesis by (simp add: m n)
qed

section \<open>Comparison of floats\<close>

lemma correct_aic_same_series:
  "ts s' = ts s \<Longrightarrow> hk_correct_aic s' ord trend a = hk_correct_aic s ord trend a"
  by (simp add: hk_correct_aic_def)

lemma flt_irrefl [simp]: "\<not> flt x x"
  by (cases x) simp_all

lemma flt_not_NaN: "flt x y \<Longrightarrow> x \<noteq> NaN \<and> y \<noteq> NaN"
  by (cases x; cases y) simp_all

lemma flt_imp_fle: "flt x y \<Longrightarrow> fle x y"
  by (cases x; cases y) simp_all

lemma fle_refl: "x \<noteq> NaN \<Longrightarrow> fle x x"
  by (cases x) simp_all

lemma fle_trans: "fle x y \<Longrightarrow> fle y z \<Longrightarrow> fle x z"
  by (cases x; cases y; cases z) simp_all

lemma not_flt_fle: "x \<noteq> NaN \<Longrightarrow> y \<noteq> NaN \<Longrightarrow> \<not> flt x y \<Longrightarrow> fle y x"
  by (cases x; cases y) simp_all

section \<open>One evaluation, and the loops over it\<close>

lemma hk_fit_cases:
  assumes "hk_fit fit s ord trend = Inr s'"
  obtains (kept) "s' = s"
  | (replaced) m c where "fit ord trend = Fitted m"
      and "hk_correct_aic s ord trend (aic m) = Inr c"
      and "flt c (aicc s)"
      and "roots_outside (snd (conditions s)) (arroots m)"
      and "roots_outside (snd (conditions s)) (maroots m)"
      and "s' = accepted s ord trend m c"
proof (cases "fit ord trend")
  case (Raises e)
  with assms show ?thesis by (simp add: hk_fit_def)
next
  case (Fitted m)
  show ?thesis
  proof (cases "hk_correct_aic s ord trend (aic m)")
    case (Inl e)
    with assms Fitted show ?thesis by (simp add: hk_fit_def)
  next
    case (Inr c)
    show ?thesis
    proof (cases "flt c (aicc s) \<and> roots_outside (snd (conditions s)) (arroots m)
        \<and> roots_outside (snd (conditions s)) (maroots m)")
      case True
      with assms Fitted Inr have "s' = accepted s ord trend m c"
        by (simp add: hk_fit_def accepted_def)
      with True Fitted Inr show ?thesis by (intro replaced) simp_all
    next
      case False
      with assms Fitted Inr have "s' = s"
        by (auto simp add: hk_fit_def Let_def split: if_splits)
      then show ?thesis by (rule kept)
    qed
  qed
qed

lemma hk_fit_frame:
  assumes "hk_fit fit s ord trend = Inr s'"
  shows "ts s' = ts s" and "alpha s' = alpha s" and "conditions s' = conditions s"
    and "full_search s' = full_search s" and "verbose s' = verbose s"
    and "p_values s' = p_values s" and "self_d s' = self_d s" and "warned s' = warned s"
  using assms by (cases rule: hk_fit_cases; simp add: accepted_def)+


lemma fit_seeds_induct_rule:
  assumes "fit_seeds fit s cs = Inr s'"
    and "P s"
    and "\<And>u ord trend u'. P u \<Longrightarrow> (ord, trend) \<in> set cs \<Longrightarrow> hk_fit fit u ord trend = Inr u' \<Longrightarrow> P u'"
  shows "P s'"
  using assms
proof (induction cs arbitrary: s)
  case Nil
  then show ?case by simp
next
  case (Cons c cs)
  obtain ord trend where c: "c = (ord, trend)" by (cases c)
  have step: "\<And>u ord trend u'. P u \<Longrightarrow> (ord, trend) \<in> set cs \<Longrightarrow> hk_fit fit u ord trend = Inr u' \<Longrightarrow> P u'"
    using Cons.prems(3) by (meson list.set_intros(2))
  show ?case
  proof (cases "hk_fit fit s ord trend")
    case (Inl e)
    with Cons.prems(1) c have "fit_seeds fit s cs = Inr s'"
      by (simp split: if_splits)
    from Cons.IH [OF this Cons.prems(2) step] show ?thesis .
  next
    case (Inr u)
    with Cons.prems(1) c have run: "fit_seeds fit u cs = Inr s'" by simp
    have "(ord, trend) \<in> set (c # cs)" using c by simp
    from Cons.prems(3) [OF Cons.prems(2) this Inr] have "P u" .
    from Cons.IH [OF run this step] show ?thesis .
  qed
qed

lemma grid_loop_as_seeds:
  assumes "grid_loop fit (s, orders) cands = Inr (s', orders')"
  shows "\<exists>cs. set cs \<subseteq> set cands \<and> fit_seeds fit s cs = Inr s'"
  using assms
proof (induction cands arbitrary: s orders)
  case Nil
  then have "fit_seeds fit s [] = Inr s'" by simp
  then show ?case by blast
next
  case (Cons c cands)
  obtain ord trend where c: "c = (ord, trend)" by (cases c)
  show ?case
  proof (cases "in_orders (ord, trend) orders")
    case True
    with Cons.prems c have "grid_loop fit (s, orders) cands = Inr (s', orders')" by simp
    from Cons.IH [OF this] obtain cs
      where "set cs \<subseteq> set cands" "fit_seeds fit s cs = Inr s'" by blast
    then have "set cs \<subseteq> set (c # cands)" by auto
    with \<open>fit_seeds fit s cs = Inr s'\<close> show ?thesis by blast
  next
    case False
    show ?thesis
    proof (cases "hk_fit fit s ord trend")
      case (Inl e)
      with Cons.prems c False have e: "e = ValueError"
        and "grid_loop fit (s, orders) cands = Inr (s', orders')"
        by (simp_all split: if_splits)
      from Cons.IH [OF this(2)] obtain cs
        where cs: "set cs \<subseteq> set cands" "fit_seeds fit s cs = Inr s'" by blast
      from cs(1) c have "set ((ord, trend) # cs) \<subseteq> set (c # cands)" by auto
      moreover from cs(2) Inl e have "fit_seeds fit s ((ord, trend) # cs) = Inr s'" by simp
      ultimately show ?thesis by blast
    next
      case (Inr u)
      with Cons.prems c False
      have "grid_loop fit (u, orders @ [(ord, trend)]) cands = Inr (s', orders')" by simp
      from Cons.IH [OF this] obtain cs
        where cs: "set cs \<subseteq> set cands" "fit_seeds fit u cs = Inr s'" by blast
      from cs(1) c have "set ((ord, trend) # cs) \<subseteq> set (c # cands)" by auto
      moreover from cs(2) Inr have "fit_seeds fit s ((ord, trend) # cs) = Inr s'" by simp
      ultimately show ?thesis by blast
    qed
  qed
qed

lemma fit_seeds_append:
  "fit_seeds fit s (cs @ cs') =
     (case fit_seeds fit s cs of Inl e \<Rightarrow> Inl e | Inr u \<Rightarrow> fit_seeds fit u cs')"
proof (induction cs arbitrary: s)
  case Nil
  show ?case by simp
next
  case (Cons c cs)
  obtain ord trend where c: "c = (ord, trend)" by (cases c)
  show ?case
    by (cases "hk_fit fit s ord trend") (simp_all add: c Cons.IH)
qed

text \<open>What the differencing phase returns or raises on an object without \<^verbatim>\<open>d\<close>.\<close>

lemma hk_test_no_attribute:
  "self_d s = None \<Longrightarrow>
   hk_test adf kpss s series =
     Some (case adf series of
             Inl e \<Rightarrow> Inl e
           | Inr p_adf \<Rightarrow>
               (case kpss series of
                  Inl e \<Rightarrow> Inl e
                | Inr p_kpss \<Rightarrow>
                    if p_kpss < alpha s \<or> alpha s \<le> p_adf then Inl AttributeError
                    else Inr s))"
  by (subst hk_test.simps) (simp split: sum.split)

lemma get_differencing_degree_init:
  "hk_get_differencing_degree adf kpss (hk_init series a conds fs vb) =
     Some (case adf series of
             Inl e \<Rightarrow> Inl e
           | Inr p_adf \<Rightarrow>
               (case kpss series of
                  Inl e \<Rightarrow> Inl e
                | Inr p_kpss \<Rightarrow>
                    if p_kpss < a \<or> a \<le> p_adf then Inl AttributeError
                    else Inr (hk_init series a conds fs vb)))"
proof -
  have "self_d (hk_init series a conds fs vb) = None"
    and "alpha (hk_init series a conds fs vb) = a"
    and "ts (hk_init series a conds fs vb) = series"
    by (simp_all add: hk_init_def)
  then show ?thesis
    by (simp add: hk_get_differencing_degree_def hk_test_no_attribute split: sum.split)
qed

lemma get_differencing_degree_init_result:
  "hk_get_differencing_degree adf kpss (hk_init series a conds fs vb)
     = Some (Inr (hk_init series a conds fs vb))
   \<or> (\<exists>e. hk_get_differencing_degree adf kpss (hk_init series a conds fs vb) = Some (Inl e))"
  by (simp add: get_differencing_degree_init split: sum.split)

lemma get_differencing_degree_init_cases:
  assumes "hk_get_differencing_degree adf kpss (hk_init series a conds fs vb) = Some (Inr s1)"
  shows "s1 = hk_init series a conds fs vb"
  using assms
  by (auto simp add: get_differencing_degree_init split: sum.splits if_splits)

section \<open>The incumbent along a sequence of evaluations\<close>

lemma hk_fit_eq:
  "hk_fit fit s ord trend =
     (case fit ord trend of
        Raises e \<Rightarrow> Inl e
      | Fitted m \<Rightarrow>
          (case hk_correct_aic s ord trend (aic m) of
             Inl e \<Rightarrow> Inl e
           | Inr c \<Rightarrow>
               if flt c (aicc s) \<and> roots_outside (snd (conditions s)) (arroots m)
                  \<and> roots_outside (snd (conditions s)) (maroots m)
               then Inr (accepted s ord trend m c) else Inr s))"
  by (simp add: hk_fit_def accepted_def Let_def split: fit_result.split sum.split)

lemma stable_aiccs_same:
  "ts u = ts s \<Longrightarrow> conditions u = conditions s \<Longrightarrow> stable_aiccs fit u cs = stable_aiccs fit s cs"
proof (induction cs)
  case Nil
  show ?case by simp
next
  case (Cons c cs)
  obtain ord trend where c: "c = (ord, trend)" by (cases c)
  from Cons show ?case
    by (auto simp add: c correct_aic_same_series [of u s] split: fit_result.split sum.split)
qed

lemma accepted_fields [simp]:
  "aicc (accepted s ord trend m c) = c"
  "model (accepted s ord trend m c) = Some m"
  "ts (accepted s ord trend m c) = ts s"
  "conditions (accepted s ord trend m c) = conditions s"
  by (simp_all add: accepted_def)


lemma fle_flt_neq: "fle x c \<Longrightarrow> flt c y \<Longrightarrow> x \<noteq> y"
  by (cases x; cases c; cases y) simp_all

lemma fit_seeds_minimum:
  assumes "fit_seeds fit s cs = Inr s'" and "aicc s \<noteq> NaN"
  shows "aicc s' \<noteq> NaN
    \<and> fle (aicc s') (aicc s)
    \<and> (\<forall>v \<in> set (stable_aiccs fit s cs). v \<noteq> NaN \<longrightarrow> fle (aicc s') v)
    \<and> (aicc s' = aicc s \<or> aicc s' \<in> set (stable_aiccs fit s cs))
    \<and> (aicc s' = aicc s \<longrightarrow> s' = s)"
  using assms
proof (induction cs arbitrary: s)
  case Nil
  then show ?case by (simp add: fle_refl)
next
  case (Cons cand cs)
  obtain ord trend where cand: "cand = (ord, trend)" by (cases cand)
  show ?case
  proof (cases "fit ord trend")
    case (Raises e)
    with Cons.prems(1) cand have run: "fit_seeds fit s cs = Inr s'"
      by (simp add: hk_fit_eq split: if_splits)
    have same: "stable_aiccs fit s (cand # cs) = stable_aiccs fit s cs"
      by (simp add: cand Raises)
    from Cons.IH [OF run Cons.prems(2)] show ?thesis unfolding same .
  next
    case (Fitted m)
    show ?thesis
    proof (cases "hk_correct_aic s ord trend (aic m)")
      case (Inl e)
      with Cons.prems(1) cand Fitted have run: "fit_seeds fit s cs = Inr s'"
        by (simp add: hk_fit_eq split: if_splits)
      have same: "stable_aiccs fit s (cand # cs) = stable_aiccs fit s cs"
        by (simp add: cand Fitted Inl)
      from Cons.IH [OF run Cons.prems(2)] show ?thesis unfolding same .
    next
      case (Inr c)
      let ?ok = "roots_outside (snd (conditions s)) (arroots m)
                 \<and> roots_outside (snd (conditions s)) (maroots m)"
      show ?thesis
      proof (cases "flt c (aicc s) \<and> ?ok")
        case True
        let ?u = "accepted s ord trend m c"
        have fit: "hk_fit fit s ord trend = Inr ?u"
          using True Fitted Inr by (simp add: hk_fit_eq)
        with Cons.prems(1) cand have run: "fit_seeds fit ?u cs = Inr s'" by simp
        have c: "c \<noteq> NaN" using True flt_not_NaN by blast
        then have "aicc ?u \<noteq> NaN" by simp
        from Cons.IH [OF run this]
        have ih: "aicc s' \<noteq> NaN" "fle (aicc s') c"
          "\<forall>v \<in> set (stable_aiccs fit ?u cs). v \<noteq> NaN \<longrightarrow> fle (aicc s') v"
          "aicc s' = c \<or> aicc s' \<in> set (stable_aiccs fit ?u cs)"
          by simp_all
        have rest: "stable_aiccs fit ?u cs = stable_aiccs fit s cs"
          by (rule stable_aiccs_same) simp_all
        have list: "stable_aiccs fit s (cand # cs) = c # stable_aiccs fit s cs"
          using True by (simp add: cand Fitted Inr)
        have "fle c (aicc s)" using True by (simp add: flt_imp_fle)
        with ih(2) have le: "fle (aicc s') (aicc s)" by (rule fle_trans)
        have neq: "aicc s' \<noteq> aicc s" using ih(2) True by (simp add: fle_flt_neq)
        have lower: "\<forall>v \<in> set (stable_aiccs fit s (cand # cs)). v \<noteq> NaN \<longrightarrow> fle (aicc s') v"
          using ih(2,3) by (simp add: list rest)
        have attained: "aicc s' \<in> set (stable_aiccs fit s (cand # cs))"
          using ih(4) by (auto simp add: list rest)
        from ih(1) le lower attained neq show ?thesis by blast
      next
        case False
        then have fit: "hk_fit fit s ord trend = Inr s"
          using Fitted Inr by (auto simp add: hk_fit_eq)
        with Cons.prems(1) cand have run: "fit_seeds fit s cs = Inr s'" by simp
        from Cons.IH [OF run Cons.prems(2)]
        have ih: "aicc s' \<noteq> NaN" "fle (aicc s') (aicc s)"
          "\<forall>v \<in> set (stable_aiccs fit s cs). v \<noteq> NaN \<longrightarrow> fle (aicc s') v"
          "aicc s' = aicc s \<or> aicc s' \<in> set (stable_aiccs fit s cs)"
          "aicc s' = aicc s \<longrightarrow> s' = s"
          by simp_all
        show ?thesis
        proof (cases ?ok)
          case True
          with False have nlt: "\<not> flt c (aicc s)" by simp
          have list: "stable_aiccs fit s (cand # cs) = c # stable_aiccs fit s cs"
            using True by (simp add: cand Fitted Inr)
          have "c \<noteq> NaN \<longrightarrow> fle (aicc s') c"
          proof
            assume "c \<noteq> NaN"
            from not_flt_fle [OF this Cons.prems(2) nlt] have "fle (aicc s) c" .
            with ih(2) show "fle (aicc s') c" by (rule fle_trans)
          qed
          with ih show ?thesis by (auto simp add: list)
        next
          case bad: False
          have "stable_aiccs fit s (cand # cs) = stable_aiccs fit s cs"
            using bad by (auto simp add: cand Fitted Inr)
          with ih show ?thesis by simp
        qed
      qed
    qed
  qed
qed

lemma hk_init_fields [simp]:
  "ts (hk_init series a conds fs vb) = series"
  "alpha (hk_init series a conds fs vb) = a"
  "conditions (hk_init series a conds fs vb) = conds"
  "full_search (hk_init series a conds fs vb) = fs"
  "verbose (hk_init series a conds fs vb) = vb"
  "model (hk_init series a conds fs vb) = None"
  "aicc (hk_init series a conds fs vb) = PInf"
  "self_d (hk_init series a conds fs vb) = None"
  "order_d (order (hk_init series a conds fs vb)) = PyInt 0"
  "order_p (order (hk_init series a conds fs vb)) = PyInt 0"
  "order_q (order (hk_init series a conds fs vb)) = PyInt 0"
  by (simp_all add: hk_init_def)

lemma fle_PInf: "fle PInf v \<Longrightarrow> v = PInf"
  by (cases v) simp_all

text \<open>
  C5. Take any sequence of candidates evaluated one after the other on a new object,
  a ValueError of the fit being skipped. As long as no candidate of the sequence has
  passed the root checks, the object is the one \<^verbatim>\<open>__init__\<close> made: no model and
  AICc \<open>+\<infinity>\<close>. Otherwise the incumbent's AICc is the least of the AICc values of the
  candidates that passed the root checks: it is one of them and none of them is below
  it (a NaN is no number and is left aside).
\<close>

theorem incumbent_is_minimum:
  assumes "fit_seeds fit (hk_init series a conds fs vb) cs = Inr self"
  shows "(stable_aiccs fit (hk_init series a conds fs vb) cs = [] \<longrightarrow>
            self = hk_init series a conds fs vb \<and> model self = None \<and> aicc self = PInf)
    \<and> (\<forall>v \<in> set (stable_aiccs fit (hk_init series a conds fs vb) cs).
          v \<noteq> NaN \<longrightarrow> fle (aicc self) v)
    \<and> ((\<exists>v \<in> set (stable_aiccs fit (hk_init series a conds fs vb) cs). v \<noteq> NaN) \<longrightarrow>
          aicc self \<in> set (stable_aiccs fit (hk_init series a conds fs vb) cs))"
proof -
  let ?s = "hk_init series a conds fs vb"
  let ?L = "stable_aiccs fit ?s cs"
  have "aicc ?s \<noteq> NaN" by simp
  from fit_seeds_minimum [OF assms this]
  have lower: "\<forall>v \<in> set ?L. v \<noteq> NaN \<longrightarrow> fle (aicc self) v"
    and attained: "aicc self = PInf \<or> aicc self \<in> set ?L"
    and same: "aicc self = PInf \<longrightarrow> self = ?s"
    by simp_all
  have sentinel: "?L = [] \<longrightarrow> self = ?s \<and> model self = None \<and> aicc self = PInf"
  proof
    assume "?L = []"
    with attained have "aicc self = PInf" by simp
    with same have "self = ?s" by simp
    then show "self = ?s \<and> model self = None \<and> aicc self = PInf" by simp
  qed
  have member: "(\<exists>v \<in> set ?L. v \<noteq> NaN) \<longrightarrow> aicc self \<in> set ?L"
  proof
    assume "\<exists>v \<in> set ?L. v \<noteq> NaN"
    then obtain v where v: "v \<in> set ?L" "v \<noteq> NaN" by blast
    show "aicc self \<in> set ?L"
    proof (cases "aicc self = PInf")
      case True
      from lower v have "fle (aicc self) v" by simp
      with True have "v = PInf" by (simp add: fle_PInf)
      with v(1) True show ?thesis by simp
    next
      case False
      with attained show ?thesis by simp
    qed
  qed
  from sentinel lower member show ?thesis by blast
qed

text \<open>
  C10. From any state that a run reaches, evaluating further candidates never raises
  the incumbent's AICc, and a candidate whose AICc equals the incumbent's leaves the
  object as it is: the comparison of line 131 is strict.
\<close>

theorem incumbent_never_increases:
  assumes "fit_seeds fit (hk_init series a conds fs vb) cs = Inr s"
  shows "(\<forall>cs' s'. fit_seeds fit s cs' = Inr s' \<longrightarrow> fle (aicc s') (aicc s))
    \<and> (\<forall>ord trend m. fit ord trend = Fitted m \<longrightarrow>
          hk_correct_aic s ord trend (aic m) = Inr (aicc s) \<longrightarrow>
          hk_fit fit s ord trend = Inr s)"
proof (intro conjI allI impI)
  have "aicc (hk_init series a conds fs vb) \<noteq> NaN" by simp
  from fit_seeds_minimum [OF assms this] have num: "aicc s \<noteq> NaN" by simp
  fix cs' s'
  assume "fit_seeds fit s cs' = Inr s'"
  from fit_seeds_minimum [OF this num] show "fle (aicc s') (aicc s)" by simp
next
  fix ord trend m
  assume "fit ord trend = Fitted m" and "hk_correct_aic s ord trend (aic m) = Inr (aicc s)"
  then show "hk_fit fit s ord trend = Inr s" by (simp add: hk_fit_eq)
qed


lemma fit_seeds_no_ValueError: "fit_seeds fit s cs \<noteq> Inl ValueError"
proof (induction cs arbitrary: s)
  case Nil
  show ?case by simp
next
  case (Cons c cs)
  obtain ord trend where c: "c = (ord, trend)" by (cases c)
  show ?case
    by (cases "hk_fit fit s ord trend") (simp_all add: c Cons.IH)
qed

lemma grid_loop_no_ValueError: "grid_loop fit (s, orders) cands \<noteq> Inl ValueError"
proof (induction cands arbitrary: s orders)
  case Nil
  show ?case by simp
next
  case (Cons c cands)
  obtain ord trend where c: "c = (ord, trend)" by (cases c)
  show ?case
    by (cases "hk_fit fit s ord trend") (simp_all add: c Cons.IH)
qed

lemma hk_test_raises:
  assumes "hk_test adf kpss s series = Some r"
    and "\<forall>xs. adf xs \<noteq> Inl ValueError" and "\<forall>xs. kpss xs \<noteq> Inl ValueError"
  shows "r \<noteq> Inl ValueError"
proof -
  have "(\<forall>xs. adf xs \<noteq> Inl ValueError) \<longrightarrow> (\<forall>xs. kpss xs \<noteq> Inl ValueError) \<longrightarrow>
        r \<noteq> Inl ValueError"
  proof (rule hk_test.raw_induct
      [where P = "\<lambda>adf kpss s series r. (\<forall>xs. adf xs \<noteq> Inl ValueError) \<longrightarrow>
                    (\<forall>xs. kpss xs \<noteq> Inl ValueError) \<longrightarrow> r \<noteq> Inl ValueError",
       OF _ assms(1)], goal_cases)
    case (1 f adf kpss self series y)
    show ?case
    proof (intro impI)
      assume a: "\<forall>xs. adf xs \<noteq> Inl ValueError" and k: "\<forall>xs. kpss xs \<noteq> Inl ValueError"
      from a have a': "adf series \<noteq> Inl ValueError" by simp
      from k have k': "kpss series \<noteq> Inl ValueError" by simp
      have ih: "z \<noteq> Inl ValueError" if "f adf kpss s' series' = Some z" for s' series' z
        using 1(1) [OF that] a k by blast
      from 1(2) a' k' show "y \<noteq> Inl ValueError"
        by (auto split: sum.splits if_splits option.splits dest: ih)
    qed
  qed
  with assms(2,3) show ?thesis by simp
qed

lemma map_sum_no_ValueError:
  "x \<noteq> Inl ValueError \<Longrightarrow> map_sum id f x \<noteq> Inl ValueError"
  by (cases x) simp_all

lemma hk_find_no_ValueError:
  assumes "\<forall>xs. adf xs \<noteq> Inl ValueError" and "\<forall>xs. kpss xs \<noteq> Inl ValueError"
  shows "hk_find fit adf kpss s \<noteq> Some (Inl ValueError)"
proof (cases "hk_get_differencing_degree adf kpss s")
  case None
  then show ?thesis by (simp add: hk_find_def)
next
  case (Some r)
  then have "hk_test adf kpss s (ts s) = Some r"
    by (simp add: hk_get_differencing_degree_def)
  from hk_test_raises [OF this assms] have r: "r \<noteq> Inl ValueError" .
  show ?thesis
  proof (cases r)
    case (Inl e)
    with Some r show ?thesis by (simp add: hk_find_def)
  next
    case (Inr s1)
    show ?thesis
    proof (cases "full_search s1")
      case True
      with Some Inr show ?thesis
        by (simp add: hk_find_def Let_def map_sum_no_ValueError grid_loop_no_ValueError)
    next
      case False
      show ?thesis
      proof (cases "fit_seeds fit s1 (seed_orders (order_d (order s1)))")
        case (Inl e)
        then have "e \<noteq> ValueError" using fit_seeds_no_ValueError [of fit s1] by auto
        with Some Inr False Inl show ?thesis by (simp add: hk_find_def Let_def)
      next
        case s2: (Inr s2)
        with Some Inr False show ?thesis
          by (simp add: hk_find_def Let_def map_sum_no_ValueError grid_loop_no_ValueError)
      qed
    qed
  qed
qed

lemma fit_seeds_skips_failures:
  "fit_seeds fit s cs =
     fit_seeds fit s (filter (\<lambda>c. fit (fst c) (snd c) \<noteq> Raises ValueError) cs)"
proof (induction cs arbitrary: s)
  case Nil
  show ?case by simp
next
  case (Cons c cs)
  obtain ord trend where c: "c = (ord, trend)" by (cases c)
  show ?case
  proof (cases "fit ord trend = Raises ValueError")
    case True
    then have "hk_fit fit s ord trend = Inl ValueError" by (simp add: hk_fit_def)
    with True Cons.IH [of s] show ?thesis by (simp add: c)
  next
    case False
    show ?thesis
    proof (cases "hk_fit fit s ord trend")
      case (Inl e)
      with False Cons.IH [of s] show ?thesis by (simp add: c)
    next
      case (Inr u)
      with False Cons.IH [of u] show ?thesis by (simp add: c)
    qed
  qed
qed

lemma grid_loop_skips_failures:
  "grid_loop fit (s, orders) cands =
     grid_loop fit (s, orders) (filter (\<lambda>c. fit (fst c) (snd c) \<noteq> Raises ValueError) cands)"
proof (induction cands arbitrary: s orders)
  case Nil
  show ?case by simp
next
  case (Cons c cands)
  obtain ord trend where c: "c = (ord, trend)" by (cases c)
  show ?case
  proof (cases "fit ord trend = Raises ValueError")
    case True
    then have "hk_fit fit s ord trend = Inl ValueError" by (simp add: hk_fit_def)
    with True Cons.IH [of s orders] show ?thesis by (simp add: c)
  next
    case False
    show ?thesis
    proof (cases "hk_fit fit s ord trend")
      case (Inl e)
      with False Cons.IH [of s orders] show ?thesis by (simp add: c)
    next
      case (Inr u)
      with False Cons.IH [of s orders] Cons.IH [of u "orders @ [(ord, trend)]"]
      show ?thesis by (simp add: c)
    qed
  qed
qed

text \<open>
  C9, as the code has it. The failure that the search recovers from is ValueError, the
  one class named at lines 172 and 193. A candidate whose fit raises it leaves the object
  and the list of visited orders unchanged, and both loops go on to evaluate the next
  candidate from that state; wherever such candidates stand in the list, the loop gives
  what it gives on the list without them. A ValueError leaves \<^verbatim>\<open>find\<close> only when one
  of the two tests of the differencing phase raises it, never from a fit. A fit that
  raises an exception of another class is not recovered: the exception leaves the loop.
\<close>

theorem fit_failure_is_skipped:
  "(fit ord trend = Raises ValueError \<longrightarrow>
      hk_fit fit self ord trend = Inl ValueError
      \<and> fit_seeds fit self ((ord, trend) # (ord', trend') # rest) =
          (case hk_fit fit self ord' trend' of
             Inl e \<Rightarrow> if e = ValueError then fit_seeds fit self rest else Inl e
           | Inr self' \<Rightarrow> fit_seeds fit self' rest)
      \<and> (\<not> in_orders (ord', trend') orders \<longrightarrow>
           grid_loop fit (self, orders) ((ord, trend) # (ord', trend') # rest) =
             (case hk_fit fit self ord' trend' of
                Inl e \<Rightarrow> if e = ValueError then grid_loop fit (self, orders) rest else Inl e
              | Inr self' \<Rightarrow> grid_loop fit (self', orders @ [(ord', trend')]) rest)))
   \<and> fit_seeds fit self cs =
       fit_seeds fit self (filter (\<lambda>c. fit (fst c) (snd c) \<noteq> Raises ValueError) cs)
   \<and> grid_loop fit (self, orders) cs =
       grid_loop fit (self, orders) (filter (\<lambda>c. fit (fst c) (snd c) \<noteq> Raises ValueError) cs)
   \<and> ((\<forall>xs. adf xs \<noteq> Inl ValueError) \<and> (\<forall>xs. kpss xs \<noteq> Inl ValueError) \<longrightarrow>
        hk_find fit adf kpss self \<noteq> Some (Inl ValueError))
   \<and> (fit2 ord2 trend2 = Raises e \<and> e \<noteq> ValueError \<longrightarrow>
        hk_fit fit2 self2 ord2 trend2 = Inl e
        \<and> fit_seeds fit2 self2 ((ord2, trend2) # rest2) = Inl e
        \<and> (\<not> in_orders (ord2, trend2) orders2 \<longrightarrow>
             grid_loop fit2 (self2, orders2) ((ord2, trend2) # rest2) = Inl e))"
proof (intro conjI impI)
  assume raises: "fit ord trend = Raises ValueError"
  then show raised: "hk_fit fit self ord trend = Inl ValueError"
    by (simp add: hk_fit_def)
  then show "fit_seeds fit self ((ord, trend) # (ord', trend') # rest) =
          (case hk_fit fit self ord' trend' of
             Inl e \<Rightarrow> if e = ValueError then fit_seeds fit self rest else Inl e
           | Inr self' \<Rightarrow> fit_seeds fit self' rest)"
    by simp
  assume "\<not> in_orders (ord', trend') orders"
  with raised show "grid_loop fit (self, orders) ((ord, trend) # (ord', trend') # rest) =
             (case hk_fit fit self ord' trend' of
                Inl e \<Rightarrow> if e = ValueError then grid_loop fit (self, orders) rest else Inl e
              | Inr self' \<Rightarrow> grid_loop fit (self', orders @ [(ord', trend')]) rest)"
    by simp
next
  show "fit_seeds fit self cs =
       fit_seeds fit self (filter (\<lambda>c. fit (fst c) (snd c) \<noteq> Raises ValueError) cs)"
    by (rule fit_seeds_skips_failures)
next
  show "grid_loop fit (self, orders) cs =
       grid_loop fit (self, orders) (filter (\<lambda>c. fit (fst c) (snd c) \<noteq> Raises ValueError) cs)"
    by (rule grid_loop_skips_failures)
next
  assume "(\<forall>xs. adf xs \<noteq> Inl ValueError) \<and> (\<forall>xs. kpss xs \<noteq> Inl ValueError)"
  then show "hk_find fit adf kpss self \<noteq> Some (Inl ValueError)"
    by (intro hk_find_no_ValueError) simp_all
next
  assume other: "fit2 ord2 trend2 = Raises e \<and> e \<noteq> ValueError"
  then show raised: "hk_fit fit2 self2 ord2 trend2 = Inl e"
    by (simp add: hk_fit_def)
  with other show "fit_seeds fit2 self2 ((ord2, trend2) # rest2) = Inl e" by simp
  assume "\<not> in_orders (ord2, trend2) orders2"
  with raised other
  show "grid_loop fit2 (self2, orders2) ((ord2, trend2) # rest2) = Inl e" by simp
qed

lemma fit_seeds_roots:
  assumes "fit_seeds fit s cs = Inr s'"
    and "\<forall>m. model s = Some m \<longrightarrow>
           roots_outside (snd (conditions s)) (arroots m)
           \<and> roots_outside (snd (conditions s)) (maroots m)"
  shows "conditions s' = conditions s \<and> (\<forall>m. model s' = Some m \<longrightarrow>
           roots_outside (snd (conditions s)) (arroots m)
           \<and> roots_outside (snd (conditions s)) (maroots m))"
proof (rule fit_seeds_induct_rule [OF assms(1)])
  show "conditions s = conditions s \<and> (\<forall>m. model s = Some m \<longrightarrow>
           roots_outside (snd (conditions s)) (arroots m)
           \<and> roots_outside (snd (conditions s)) (maroots m))"
    using assms(2) by simp
next
  fix u ord trend u'
  assume inv: "conditions u = conditions s \<and> (\<forall>m. model u = Some m \<longrightarrow>
           roots_outside (snd (conditions s)) (arroots m)
           \<and> roots_outside (snd (conditions s)) (maroots m))"
    and step: "hk_fit fit u ord trend = Inr u'"
  from step show "conditions u' = conditions s \<and> (\<forall>m. model u' = Some m \<longrightarrow>
           roots_outside (snd (conditions s)) (arroots m)
           \<and> roots_outside (snd (conditions s)) (maroots m))"
  proof (cases rule: hk_fit_cases)
    case kept
    with inv show ?thesis by simp
  next
    case (replaced m c)
    with inv show ?thesis by simp
  qed
qed

text \<open>
  C6. Every model that a run holds as incumbent has all its AR roots and all its MA
  roots of modulus strictly above \<^verbatim>\<open>conditions[1]\<close>. An evaluation changes the object
  only when the candidate's AICc is strictly below the incumbent's and both root checks
  pass; a candidate with a root of modulus at most \<^verbatim>\<open>conditions[1]\<close> leaves the object
  unchanged whatever its AICc.
\<close>

theorem incumbent_roots_outside:
  "(fit_seeds fit (hk_init series a conds fs vb) cs = Inr self \<longrightarrow>
      (\<forall>m. model self = Some m \<longrightarrow>
         roots_outside (snd conds) (arroots m) \<and> roots_outside (snd conds) (maroots m)))
   \<and> (hk_fit fit u ord trend = Inr u' \<and> u' \<noteq> u \<longrightarrow>
      (\<exists>m c. fit ord trend = Fitted m \<and> hk_correct_aic u ord trend (aic m) = Inr c
         \<and> flt c (aicc u)
         \<and> roots_outside (snd (conditions u)) (arroots m)
         \<and> roots_outside (snd (conditions u)) (maroots m)
         \<and> u' = accepted u ord trend m c))
   \<and> (fit ord' trend' = Fitted m' \<and>
        \<not> (roots_outside (snd (conditions w)) (arroots m')
           \<and> roots_outside (snd (conditions w)) (maroots m')) \<longrightarrow>
      (\<forall>c. hk_correct_aic w ord' trend' (aic m') = Inr c \<longrightarrow>
           hk_fit fit w ord' trend' = Inr w))"
proof (intro conjI impI allI)
  fix m
  assume run: "fit_seeds fit (hk_init series a conds fs vb) cs = Inr self"
    and m: "model self = Some m"
  have "\<forall>m. model (hk_init series a conds fs vb) = Some m \<longrightarrow>
     roots_outside (snd (conditions (hk_init series a conds fs vb))) (arroots m)
     \<and> roots_outside (snd (conditions (hk_init series a conds fs vb))) (maroots m)"
    by simp
  from fit_seeds_roots [OF run this] m
  have both: "roots_outside (snd conds) (arroots m) \<and> roots_outside (snd conds) (maroots m)"
    by simp
  from both show "roots_outside (snd conds) (arroots m)" by simp
  from both show "roots_outside (snd conds) (maroots m)" by simp
next
  assume "hk_fit fit u ord trend = Inr u' \<and> u' \<noteq> u"
  then have step: "hk_fit fit u ord trend = Inr u'" and changed: "u' \<noteq> u" by simp_all
  from step show "\<exists>m c. fit ord trend = Fitted m \<and> hk_correct_aic u ord trend (aic m) = Inr c
         \<and> flt c (aicc u)
         \<and> roots_outside (snd (conditions u)) (arroots m)
         \<and> roots_outside (snd (conditions u)) (maroots m)
         \<and> u' = accepted u ord trend m c"
  proof (cases rule: hk_fit_cases)
    case kept
    with changed show ?thesis by simp
  next
    case (replaced m c)
    then show ?thesis by blast
  qed
next
  fix c
  assume "fit ord' trend' = Fitted m' \<and>
        \<not> (roots_outside (snd (conditions w)) (arroots m')
           \<and> roots_outside (snd (conditions w)) (maroots m'))"
    and "hk_correct_aic w ord' trend' (aic m') = Inr c"
  then show "hk_fit fit w ord' trend' = Inr w" by (auto simp add: hk_fit_eq)
qed

section \<open>The theorems on the example run\<close>

lemmas example_simps =
  hk_fit_eq example_fit_def hk_correct_aic_def py_truediv_def py_add_def py_sub_def
  py_mul_def py_arith_def roots_outside_def seed_orders_def

lemma example_seed_run:
  "\<exists>self. fit_seeds example_fit example_self (seed_orders (PyInt 0)) = Inr self
      \<and> aicc self = Fin (23 / 2)
      \<and> model self = Some \<lparr> aic = Fin 10, arroots = [2], maroots = [3] \<rparr>"
  by (simp add: example_simps example_self_def)

lemma example_stable:
  "stable_aiccs example_fit example_self (seed_orders (PyInt 0)) =
     [Fin (352 / 17), Fin (182 / 9), Fin (23 / 2)]"
  by (simp add: example_simps example_self_def)


theorem incumbent_is_minimum_witness:
  "\<exists>self. fit_seeds example_fit example_self (seed_orders (PyInt 0)) = Inr self
      \<and> stable_aiccs example_fit example_self (seed_orders (PyInt 0)) =
            [Fin (352 / 17), Fin (182 / 9), Fin (23 / 2)]
      \<and> fle (aicc self) (Fin (352 / 17))
      \<and> fle (aicc self) (Fin (182 / 9))
      \<and> fle (aicc self) (Fin (23 / 2))
      \<and> aicc self \<in> set [Fin (352 / 17), Fin (182 / 9), Fin (23 / 2)]"
proof -
  from example_seed_run obtain self
    where run: "fit_seeds example_fit example_self (seed_orders (PyInt 0)) = Inr self"
    by blast
  note least = incumbent_is_minimum [OF run [unfolded example_self_def],
      folded example_self_def, unfolded example_stable]
  from least have "fle (aicc self) (Fin (352 / 17))" "fle (aicc self) (Fin (182 / 9))"
    "fle (aicc self) (Fin (23 / 2))"
    by simp_all
  moreover from least
  have "aicc self \<in> set [Fin (352 / 17), Fin (182 / 9), Fin (23 / 2)]"
    by simp
  ultimately show ?thesis using run example_stable by blast
qed

theorem incumbent_never_increases_witness:
  "\<exists>s s'. fit_seeds example_fit example_self (seed_orders (PyInt 0)) = Inr s
      \<and> fit_seeds example_fit s [((NpInt 1, PyInt 0, NpInt 1), ''nc'')] = Inr s'
      \<and> fle (aicc s') (aicc s)
      \<and> example_fit (PyInt 1, PyInt 0, PyInt 0) ''c''
            = Fitted \<lparr> aic = Fin 10, arroots = [2], maroots = [3] \<rparr>
      \<and> hk_correct_aic s (PyInt 1, PyInt 0, PyInt 0) ''c'' (Fin 10) = Inr (aicc s)
      \<and> hk_fit example_fit s (PyInt 1, PyInt 0, PyInt 0) ''c'' = Inr s"
proof -
  obtain s where run: "fit_seeds example_fit example_self (seed_orders (PyInt 0)) = Inr s"
    and at: "aicc s = Fin (23 / 2)" and len: "ts s = replicate 20 0"
    by (simp add: example_simps example_self_def)
  have fitted: "example_fit (PyInt 1, PyInt 0, PyInt 0) ''c''
      = Fitted \<lparr> aic = Fin 10, arroots = [2], maroots = [3] \<rparr>"
    by (simp add: example_fit_def)
  have tie: "hk_correct_aic s (PyInt 1, PyInt 0, PyInt 0) ''c''
      (aic \<lparr> aic = Fin 10, arroots = [2], maroots = [3] \<rparr>) = Inr (aicc s)"
    by (simp add: example_simps at len)
  obtain s' where more: "fit_seeds example_fit s [((NpInt 1, PyInt 0, NpInt 1), ''nc'')] = Inr s'"
    by (simp add: example_simps at len)
  note mono = incumbent_never_increases [OF run [unfolded example_self_def]]
  from mono more have "fle (aicc s') (aicc s)" by blast
  moreover from mono fitted tie
  have "hk_fit example_fit s (PyInt 1, PyInt 0, PyInt 0) ''c'' = Inr s" by blast
  ultimately show ?thesis using run more fitted tie by auto
qed

theorem fit_failure_is_skipped_witness:
  "example_fit (PyInt 2, PyInt 0, PyInt 2) ''c'' = Raises ValueError
   \<and> hk_fit example_fit example_self (PyInt 2, PyInt 0, PyInt 2) ''c'' = Inl ValueError
   \<and> (\<exists>u. fit_seeds example_fit example_self
              [((PyInt 2, PyInt 0, PyInt 2), ''c''), ((PyInt 0, PyInt 0, PyInt 0), ''nc'')] = Inr u
          \<and> aicc u = Fin (182 / 9))
   \<and> (\<exists>u. grid_loop example_fit (example_self, [])
              [((PyInt 2, PyInt 0, PyInt 2), ''c''), ((PyInt 0, PyInt 0, PyInt 0), ''nc'')]
            = Inr (u, [((PyInt 0, PyInt 0, PyInt 0), ''nc'')])
          \<and> aicc u = Fin (182 / 9))
   \<and> hk_find example_fit (\<lambda>xs. Inr (1 / 100)) (\<lambda>xs. Inr (1 / 2)) example_self
       \<noteq> Some (Inl ValueError)
   \<and> example_fit_other (PyInt 1, PyInt 0, PyInt 0) ''c'' = Raises OtherError
   \<and> fit_seeds example_fit_other example_self
         [((PyInt 1, PyInt 0, PyInt 0), ''c''), ((PyInt 0, PyInt 0, PyInt 0), ''nc'')]
       = Inl OtherError"
proof -
  have raises: "example_fit (PyInt 2, PyInt 0, PyInt 2) ''c'' = Raises ValueError"
    by (simp add: example_fit_def)
  have other: "example_fit_other (PyInt 1, PyInt 0, PyInt 0) ''c'' = Raises OtherError"
    by (simp add: example_fit_other_def)
  obtain u where nxt: "hk_fit example_fit example_self (PyInt 0, PyInt 0, PyInt 0) ''nc'' = Inr u"
    and u: "aicc u = Fin (182 / 9)"
    by (simp add: example_simps example_self_def)
  have fresh: "\<not> in_orders ((PyInt 0, PyInt 0, PyInt 0), ''nc'') []"
    by (simp add: in_orders_def)
  have tests: "(\<forall>xs. (\<lambda>xs. Inr (1 / 100) :: exn + real) xs \<noteq> Inl ValueError)
      \<and> (\<forall>xs. (\<lambda>xs. Inr (1 / 2) :: exn + real) xs \<noteq> Inl ValueError)"
    by simp
  note T = fit_failure_is_skipped [where fit = example_fit
      and ord = "(PyInt 2, PyInt 0, PyInt 2)" and trend = "''c''" and self = example_self
      and ord' = "(PyInt 0, PyInt 0, PyInt 0)" and trend' = "''nc''"
      and rest = "[]" and orders = "[]" and cs = "[]"
      and adf = "\<lambda>xs. Inr (1 / 100)" and kpss = "\<lambda>xs. Inr (1 / 2)"
      and ?fit2.0 = example_fit_other and ?ord2.0 = "(PyInt 1, PyInt 0, PyInt 0)"
      and ?trend2.0 = "''c''" and e = OtherError and ?self2.0 = example_self
      and ?rest2.0 = "[((PyInt 0, PyInt 0, PyInt 0), ''nc'')]" and ?orders2.0 = "[]"]
  from T raises have skipped:
    "hk_fit example_fit example_self (PyInt 2, PyInt 0, PyInt 2) ''c'' = Inl ValueError"
    by blast
  from T raises nxt
  have seeds: "fit_seeds example_fit example_self
      [((PyInt 2, PyInt 0, PyInt 2), ''c''), ((PyInt 0, PyInt 0, PyInt 0), ''nc'')] = Inr u"
    by simp
  from T raises fresh nxt
  have grids: "grid_loop example_fit (example_self, [])
      [((PyInt 2, PyInt 0, PyInt 2), ''c''), ((PyInt 0, PyInt 0, PyInt 0), ''nc'')]
      = Inr (u, [((PyInt 0, PyInt 0, PyInt 0), ''nc'')])"
    by simp
  from T tests
  have nofatal: "hk_find example_fit (\<lambda>xs. Inr (1 / 100)) (\<lambda>xs. Inr (1 / 2)) example_self
       \<noteq> Some (Inl ValueError)"
    by blast
  from T other
  have fatal: "fit_seeds example_fit_other example_self
         [((PyInt 1, PyInt 0, PyInt 0), ''c''), ((PyInt 0, PyInt 0, PyInt 0), ''nc'')]
       = Inl OtherError"
    by simp
  from raises skipped seeds grids u nofatal other fatal show ?thesis by blast
qed

text \<open>
  A fit that fails with an exception of another class ends the run: the third seed raises
  it, the seed loop does not catch it and it leaves \<^verbatim>\<open>find\<close>.
\<close>

theorem fit_failure_counterexample:
  "example_fit_other (PyInt 1, PyInt 0, PyInt 0) ''c'' = Raises OtherError
   \<and> fit_seeds example_fit_other example_self (seed_orders (PyInt 0)) = Inl OtherError
   \<and> hk_find example_fit_other (\<lambda>xs. Inr (1 / 100)) (\<lambda>xs. Inr (1 / 2)) example_self
       = Some (Inl OtherError)"
proof (intro conjI)
  show "example_fit_other (PyInt 1, PyInt 0, PyInt 0) ''c'' = Raises OtherError"
    by (simp add: example_fit_other_def)
  show seeds: "fit_seeds example_fit_other example_self (seed_orders (PyInt 0)) = Inl OtherError"
    by (simp add: example_simps example_fit_other_def example_self_def)
  show "hk_find example_fit_other (\<lambda>xs. Inr (1 / 100)) (\<lambda>xs. Inr (1 / 2)) example_self
       = Some (Inl OtherError)"
    using seeds
    by (simp add: hk_find_def get_differencing_degree_init example_self_def Let_def)
qed

theorem incumbent_roots_outside_witness:
  "\<exists>self u'. fit_seeds example_fit example_self (seed_orders (PyInt 0)) = Inr self
      \<and> model self = Some \<lparr> aic = Fin 10, arroots = [2], maroots = [3] \<rparr>
      \<and> roots_outside (1001 / 1000) [2] \<and> roots_outside (1001 / 1000) [3]
      \<and> hk_fit example_fit example_self (PyInt 0, PyInt 0, PyInt 0) ''c'' = Inr u'
      \<and> u' \<noteq> example_self
      \<and> flt (Fin (352 / 17)) (aicc example_self)
      \<and> example_fit (PyInt 0, PyInt 0, PyInt 1) ''c''
            = Fitted \<lparr> aic = Fin 5, arroots = [], maroots = [1] \<rparr>
      \<and> \<not> roots_outside (1001 / 1000) [1]
      \<and> hk_correct_aic example_self (PyInt 0, PyInt 0, PyInt 1) ''c'' (Fin 5) = Inr (Fin (13 / 2))
      \<and> hk_fit example_fit example_self (PyInt 0, PyInt 0, PyInt 1) ''c'' = Inr example_self"
proof -
  let ?m = "\<lparr> aic = Fin 10, arroots = [2], maroots = [3] \<rparr>"
  let ?bad = "\<lparr> aic = Fin 5, arroots = [], maroots = [1] \<rparr>"
  from example_seed_run obtain self
    where run: "fit_seeds example_fit example_self (seed_orders (PyInt 0)) = Inr self"
      and model: "model self = Some ?m"
    by blast
  obtain u' where step: "hk_fit example_fit example_self (PyInt 0, PyInt 0, PyInt 0) ''c'' = Inr u'"
    and changed: "aicc u' = Fin (352 / 17)"
    by (simp add: example_simps example_self_def)
  have start: "aicc example_self = PInf" "conditions example_self = (5, 1001 / 1000)"
    by (simp_all add: example_self_def)
  from changed start have neq: "u' \<noteq> example_self" by auto
  have bad: "example_fit (PyInt 0, PyInt 0, PyInt 1) ''c'' = Fitted ?bad"
    by (simp add: example_fit_def)
  have nroots: "\<not> roots_outside (1001 / 1000) [1]"
    by (simp add: roots_outside_def)
  have corr: "hk_correct_aic example_self (PyInt 0, PyInt 0, PyInt 1) ''c'' (Fin 5) = Inr (Fin (13 / 2))"
    by (simp add: example_simps example_self_def)
  note C = incumbent_roots_outside [of example_fit "replicate 20 0" "1 / 20" "(5, 1001 / 1000)" False 0
      "seed_orders (PyInt 0)" self example_self "(PyInt 0, PyInt 0, PyInt 0)" "''c''" u'
      "(PyInt 0, PyInt 0, PyInt 1)" "''c''" ?bad example_self, folded example_self_def]
  from C run model have roots: "roots_outside (1001 / 1000) [2] \<and> roots_outside (1001 / 1000) [3]"
    by simp
  from C step neq have "\<exists>m c. example_fit (PyInt 0, PyInt 0, PyInt 0) ''c'' = Fitted m
      \<and> hk_correct_aic example_self (PyInt 0, PyInt 0, PyInt 0) ''c'' (aic m) = Inr c
      \<and> flt c (aicc example_self)"
    by blast
  then have lt: "flt (Fin (352 / 17)) (aicc example_self)"
    by (auto simp add: example_simps example_self_def)
  from C bad nroots corr start
  have rej: "hk_fit example_fit example_self (PyInt 0, PyInt 0, PyInt 1) ''c'' = Inr example_self"
    by simp
  from run model roots step neq lt bad nroots corr rej show ?thesis by blast
qed

section \<open>The degree of differencing that a run uses\<close>

lemma seed_orders_d: "c \<in> set (seed_orders d) \<Longrightarrow> fst (snd (fst c)) = d"
  by (auto simp add: seed_orders_def split: if_splits)

lemma grid_d: "c \<in> set (grid ps d qs) \<Longrightarrow> fst (snd (fst c)) = d"
  by (auto simp add: grid_def)

lemma hk_fit_cong:
  "fit' ord trend = fit ord trend \<Longrightarrow> hk_fit fit' s ord trend = hk_fit fit s ord trend"
  by (simp add: hk_fit_def)

lemma fit_seeds_cong:
  assumes "\<And>ord trend. (ord, trend) \<in> set cs \<Longrightarrow> fit' ord trend = fit ord trend"
  shows "fit_seeds fit' s cs = fit_seeds fit s cs"
  using assms
proof (induction cs arbitrary: s)
  case Nil
  show ?case by simp
next
  case (Cons c cs)
  obtain ord trend where c: "c = (ord, trend)" by (cases c)
  have head: "hk_fit fit' s ord trend = hk_fit fit s ord trend"
    by (rule hk_fit_cong) (simp add: Cons.prems c)
  have tail: "\<And>u. fit_seeds fit' u cs = fit_seeds fit u cs"
    by (rule Cons.IH) (simp add: Cons.prems)
  show ?case
    by (cases "hk_fit fit s ord trend") (simp_all add: c head tail)
qed

lemma grid_loop_cong:
  assumes "\<And>ord trend. (ord, trend) \<in> set cands \<Longrightarrow> fit' ord trend = fit ord trend"
  shows "grid_loop fit' (s, orders) cands = grid_loop fit (s, orders) cands"
  using assms
proof (induction cands arbitrary: s orders)
  case Nil
  show ?case by simp
next
  case (Cons c cands)
  obtain ord trend where c: "c = (ord, trend)" by (cases c)
  have head: "hk_fit fit' s ord trend = hk_fit fit s ord trend"
    by (rule hk_fit_cong) (simp add: Cons.prems c)
  have tail: "\<And>u os. grid_loop fit' (u, os) cands = grid_loop fit (u, os) cands"
    by (rule Cons.IH) (simp add: Cons.prems)
  show ?case
    by (cases "hk_fit fit s ord trend") (simp_all add: c head tail)
qed

lemma map_sum_fst_Inr:
  "map_sum id fst x = Inr s' \<Longrightarrow> \<exists>os. x = Inr (s', os)"
  by (cases x) auto

lemma find_init_as_seeds:
  assumes "hk_find fit adf kpss (hk_init series a conds fs vb) = Some (Inr s')"
  shows "\<exists>cs. (\<forall>c \<in> set cs. fst (snd (fst c)) = PyInt 0)
           \<and> fit_seeds fit (hk_init series a conds fs vb) cs = Inr s'"
proof -
  let ?s = "hk_init series a conds fs vb"
  have gdd: "hk_get_differencing_degree adf kpss ?s = Some (Inr ?s)"
    using assms
    by (auto simp add: hk_find_def get_differencing_degree_init split: sum.splits if_splits)
  show ?thesis
  proof (cases fs)
    case True
    with assms gdd have "map_sum id fst
        (grid_loop fit (?s, []) (grid (np_arange 0 (fst conds + 1)) (PyInt 0)
           (np_arange 0 (fst conds + 1)))) = Inr s'"
      by (simp add: hk_find_def Let_def)
    from map_sum_fst_Inr [OF this] obtain orders' ps qs
      where "grid_loop fit (?s, []) (grid ps (PyInt 0) qs) = Inr (s', orders')"
      by blast
    from grid_loop_as_seeds [OF this] obtain cs
      where cs: "set cs \<subseteq> set (grid ps (PyInt 0) qs)" "fit_seeds fit ?s cs = Inr s'"
      by blast
    from cs(1) have "\<forall>c \<in> set cs. fst (snd (fst c)) = PyInt 0" by (auto dest: grid_d)
    with cs(2) show ?thesis by blast
  next
    case False
    with assms gdd obtain s2
      where seeds: "fit_seeds fit ?s (seed_orders (PyInt 0)) = Inr s2"
        and "map_sum id fst
          (grid_loop fit (s2, seed_orders (PyInt 0))
             (grid (neighbors s2 (order_p (order s2))) (PyInt 0)
                (neighbors s2 (order_q (order s2))))) = Inr s'"
      by (auto simp add: hk_find_def Let_def split: sum.splits)
    from map_sum_fst_Inr [OF this(2)] obtain orders' ps qs
      where "grid_loop fit (s2, seed_orders (PyInt 0)) (grid ps (PyInt 0) qs) = Inr (s', orders')"
      by blast
    from grid_loop_as_seeds [OF this] obtain cs
      where cs: "set cs \<subseteq> set (grid ps (PyInt 0) qs)" "fit_seeds fit s2 cs = Inr s'"
      by blast
    from cs(1) have "\<forall>c \<in> set (seed_orders (PyInt 0) @ cs). fst (snd (fst c)) = PyInt 0"
      by (auto dest: grid_d seed_orders_d)
    moreover from seeds cs(2)
    have "fit_seeds fit ?s (seed_orders (PyInt 0) @ cs) = Inr s'"
      by (simp add: fit_seeds_append)
    ultimately show ?thesis by blast
  qed
qed

lemma hk_find_cong:
  assumes "\<And>p q trend. fit' (p, PyInt 0, q) trend = fit (p, PyInt 0, q) trend"
  shows "hk_find fit' adf kpss (hk_init series a conds fs vb)
       = hk_find fit adf kpss (hk_init series a conds fs vb)"
proof -
  let ?s = "hk_init series a conds fs vb"
  have agree: "fit' ord trend = fit ord trend" if "fst (snd ord) = PyInt 0" for ord trend
    using that assms [of "fst ord" "snd (snd ord)" trend] by (cases ord) auto
  have seeds: "fit_seeds fit' u (seed_orders (PyInt 0)) = fit_seeds fit u (seed_orders (PyInt 0))"
    for u
  proof (rule fit_seeds_cong)
    fix ord trend
    assume "(ord, trend) \<in> set (seed_orders (PyInt 0))"
    from seed_orders_d [OF this] have "fst (snd ord) = PyInt 0" by simp
    then show "fit' ord trend = fit ord trend" by (rule agree)
  qed
  have grids: "grid_loop fit' (u, os) (grid ps (PyInt 0) qs)
             = grid_loop fit (u, os) (grid ps (PyInt 0) qs)" for u os ps qs
  proof (rule grid_loop_cong)
    fix ord trend
    assume "(ord, trend) \<in> set (grid ps (PyInt 0) qs)"
    from grid_d [OF this] have "fst (snd ord) = PyInt 0" by simp
    then show "fit' ord trend = fit ord trend" by (rule agree)
  qed
  from get_differencing_degree_init_result [of adf kpss series a conds fs vb]
  show ?thesis
  proof
    assume "hk_get_differencing_degree adf kpss ?s = Some (Inr ?s)"
    then show ?thesis
      by (simp add: hk_find_def Let_def hk_init_fields seeds grids split: sum.split)
  next
    assume "\<exists>e. hk_get_differencing_degree adf kpss ?s = Some (Inl e)"
    then show ?thesis by (auto simp add: hk_find_def)
  qed
qed

lemma fit_seeds_keeps_d:
  assumes "fit_seeds fit s cs = Inr s'"
    and "\<forall>c \<in> set cs. fst (snd (fst c)) = order_d (order s)"
  shows "order_d (order s') = order_d (order s) \<and> p_values s' = p_values s
       \<and> self_d s' = self_d s"
proof (rule fit_seeds_induct_rule [OF assms(1)])
  show "order_d (order s) = order_d (order s) \<and> p_values s = p_values s \<and> self_d s = self_d s"
    by simp
next
  fix u ord trend u'
  assume inv: "order_d (order u) = order_d (order s) \<and> p_values u = p_values s
       \<and> self_d u = self_d s"
    and mem: "(ord, trend) \<in> set cs" and step: "hk_fit fit u ord trend = Inr u'"
  from mem assms(2) have d: "fst (snd ord) = order_d (order s)" by fastforce
  from step show "order_d (order u') = order_d (order s) \<and> p_values u' = p_values s
       \<and> self_d u' = self_d s"
  proof (cases rule: hk_fit_cases)
    case kept
    with inv show ?thesis by simp
  next
    case (replaced m c)
    with inv d show ?thesis by (simp add: accepted_def)
  qed
qed

text \<open>
  C2. On a new object, whenever the decision rule of line 73 asks for a difference of
  the original series (the two tests return and \<open>p_kpss < alpha\<close> or
  \<open>p_adf \<ge> alpha\<close>), \<^verbatim>\<open>find\<close> raises
  AttributeError: \<^verbatim>\<open>_test\<close> reads \<^verbatim>\<open>self.d\<close>, which \<^verbatim>\<open>__init__\<close> never creates.
  \<^verbatim>\<open>find\<close> always returns or raises, and a run that returns has used the degree 0: the
  object ends with \<^verbatim>\<open>order["d"]\<close> equal to 0, no p-value recorded and still no \<^verbatim>\<open>d\<close>,
  and its result depends on the fitting collaborator at orders of degree 0 only.
\<close>

theorem find_never_differences:
  "(adf series = Inr p_adf \<and> kpss series = Inr p_kpss \<and> (p_kpss < a \<or> a \<le> p_adf) \<longrightarrow>
      hk_find fit adf kpss (hk_init series a conds fs vb) = Some (Inl AttributeError))
   \<and> (\<exists>r. hk_find fit adf' kpss' (hk_init series a conds fs vb) = Some r)
   \<and> (hk_find fit adf' kpss' (hk_init series a conds fs vb) = Some (Inr self') \<longrightarrow>
        order_d (order self') = PyInt 0 \<and> p_values self' = Map.empty \<and> self_d self' = None
        \<and> (\<forall>fit'. (\<forall>p q trend. fit' (p, PyInt 0, q) trend = fit (p, PyInt 0, q) trend) \<longrightarrow>
              hk_find fit' adf' kpss' (hk_init series a conds fs vb) = Some (Inr self')))"
proof (intro conjI impI allI)
  assume "adf series = Inr p_adf \<and> kpss series = Inr p_kpss \<and> (p_kpss < a \<or> a \<le> p_adf)"
  then show "hk_find fit adf kpss (hk_init series a conds fs vb) = Some (Inl AttributeError)"
    by (auto simp add: hk_find_def get_differencing_degree_init)
next
  from get_differencing_degree_init_result [of adf' kpss' series a conds fs vb]
  show "\<exists>r. hk_find fit adf' kpss' (hk_init series a conds fs vb) = Some r"
  proof
    assume "hk_get_differencing_degree adf' kpss' (hk_init series a conds fs vb)
      = Some (Inr (hk_init series a conds fs vb))"
    then show ?thesis by (simp add: hk_find_def Let_def split: sum.split)
  next
    assume "\<exists>e. hk_get_differencing_degree adf' kpss' (hk_init series a conds fs vb)
      = Some (Inl e)"
    then show ?thesis by (auto simp add: hk_find_def)
  qed
next
  let ?s = "hk_init series a conds fs vb"
  assume run: "hk_find fit adf' kpss' ?s = Some (Inr self')"
  from find_init_as_seeds [OF run] obtain cs
    where cs: "\<forall>c \<in> set cs. fst (snd (fst c)) = PyInt 0" "fit_seeds fit ?s cs = Inr self'"
    by blast
  from cs(1) have "\<forall>c \<in> set cs. fst (snd (fst c)) = order_d (order ?s)" by simp
  from fit_seeds_keeps_d [OF cs(2) this]
  have kept: "order_d (order self') = PyInt 0 \<and> p_values self' = Map.empty \<and> self_d self' = None"
    by (simp add: hk_init_def)
  from kept show "order_d (order self') = PyInt 0" by simp
  from kept show "p_values self' = Map.empty" by simp
  from kept show "self_d self' = None" by simp
  fix fit'
  assume "\<forall>p q trend. fit' (p, PyInt 0, q) trend = fit (p, PyInt 0, q) trend"
  then have "hk_find fit' adf' kpss' ?s = hk_find fit adf' kpss' ?s"
    by (intro hk_find_cong) simp
  with run show "hk_find fit' adf' kpss' ?s = Some (Inr self')" by simp
qed


section \<open>A whole run on the example\<close>

lemma example_find:
  "\<exists>self'. hk_find example_fit (\<lambda>xs. Inr (1 / 100)) (\<lambda>xs. Inr (1 / 2)) example_self = Some (Inr self')
     \<and> order_p (order self') = NpInt 1 \<and> order_q (order self') = NpInt (- 1)"
  by (simp add: hk_find_def get_differencing_degree_init example_simps example_self_def
        neighbors_def np_arange_def grid_def in_orders_def Let_def accepted_def upto.simps)


theorem find_never_differences_witness:
  "hk_find example_fit (\<lambda>xs. Inr (1 / 2)) (\<lambda>xs. Inr (1 / 100)) example_self = Some (Inl AttributeError)
   \<and> (\<exists>self'. hk_find example_fit (\<lambda>xs. Inr (1 / 100)) (\<lambda>xs. Inr (1 / 2)) example_self = Some (Inr self')
        \<and> order_d (order self') = PyInt 0 \<and> p_values self' = Map.empty
        \<and> self_d self' = None
        \<and> hk_find (\<lambda>ord trend. if fst (snd ord) = PyInt 0 then example_fit ord trend
                                 else Raises OtherError)
              (\<lambda>xs. Inr (1 / 100)) (\<lambda>xs. Inr (1 / 2)) example_self = Some (Inr self'))"
proof -
  let ?fit' = "\<lambda>ord trend. if fst (snd ord) = PyInt 0 then example_fit ord trend
                           else Raises OtherError"
  from example_find obtain self'
    where run: "hk_find example_fit (\<lambda>xs. Inr (1 / 100)) (\<lambda>xs. Inr (1 / 2)) example_self = Some (Inr self')"
    by blast
  note T = find_never_differences [where fit = example_fit and series = "replicate 20 0"
      and a = "1 / 20" and conds = "(5, 1001 / 1000)" and fs = False and vb = 0
      and adf = "\<lambda>xs. Inr (1 / 2)" and kpss = "\<lambda>xs. Inr (1 / 100)"
      and p_adf = "1 / 2" and p_kpss = "1 / 100"
      and adf' = "\<lambda>xs. Inr (1 / 100)" and kpss' = "\<lambda>xs. Inr (1 / 2)" and self' = self',
      folded example_self_def]
  from T have raised:
    "hk_find example_fit (\<lambda>xs. Inr (1 / 2)) (\<lambda>xs. Inr (1 / 100)) example_self = Some (Inl AttributeError)"
    by simp
  from T run have kept: "order_d (order self') = PyInt 0" "p_values self' = Map.empty"
    "self_d self' = None"
    by simp_all
  from T run
  have "\<forall>fit'. (\<forall>p q trend. fit' (p, PyInt 0, q) trend = example_fit (p, PyInt 0, q) trend) \<longrightarrow>
          hk_find fit' (\<lambda>xs. Inr (1 / 100)) (\<lambda>xs. Inr (1 / 2)) example_self = Some (Inr self')"
    by simp
  then have "(\<forall>p q trend. ?fit' (p, PyInt 0, q) trend = example_fit (p, PyInt 0, q) trend) \<longrightarrow>
          hk_find ?fit' (\<lambda>xs. Inr (1 / 100)) (\<lambda>xs. Inr (1 / 2)) example_self = Some (Inr self')"
    by (rule spec)
  then have "hk_find ?fit' (\<lambda>xs. Inr (1 / 100)) (\<lambda>xs. Inr (1 / 2)) example_self = Some (Inr self')"
    by simp
  with raised run kept show ?thesis by blast
qed

section \<open>The neighbourhoods of the stepwise search\<close>

text \<open>
  C1. What lines 176 to 181 compute where the incumbent sits on the border of
  \<open>[0, max_order]\<close>: around 0 with \<open>max_order = 5\<close> the candidates are \<open>-1, 0, 1\<close>, and
  around 1 with \<open>max_order = 1\<close> they are \<open>0, 1, 2\<close>. The condition
  \<^verbatim>\<open>not p < 0 or not p > max_order\<close> holds for every integer as soon as
  \<open>max_order \<ge> -1\<close>, so nothing is excluded; on the example run the order \<open>q = -1\<close> is
  fitted and ends as the incumbent.
\<close>

theorem neighbors_out_of_range:
  "neighbors example_self (PyInt 0) = [NpInt (- 1), NpInt 0, NpInt 1]
   \<and> neighbors (hk_init (replicate 20 0) (1 / 20) (1, 1001 / 1000) False 0) (PyInt 1)
       = [NpInt 0, NpInt 1, NpInt 2]
   \<and> (\<exists>self'. hk_find example_fit (\<lambda>xs. Inr (1 / 100)) (\<lambda>xs. Inr (1 / 2)) example_self = Some (Inr self')
         \<and> order_p (order self') = NpInt 1 \<and> order_q (order self') = NpInt (- 1))"
proof -
  have "neighbors example_self (PyInt 0) = [NpInt (- 1), NpInt 0, NpInt 1]"
    by (simp add: neighbors_def np_arange_def example_self_def upto.simps)
  moreover
  have "neighbors (hk_init (replicate 20 0) (1 / 20) (1, 1001 / 1000) False 0) (PyInt 1)
       = [NpInt 0, NpInt 1, NpInt 2]"
    by (simp add: neighbors_def np_arange_def upto.simps)
  ultimately show ?thesis using example_find by blast
qed

theorem neighbors_out_of_range_witness:
  "neighbors example_self (PyInt 0) = [NpInt (- 1), NpInt 0, NpInt 1]"
  using neighbors_out_of_range by blast

section \<open>The differencing estimator on a new object\<close>

text \<open>
  On an object that does have the attribute \<^verbatim>\<open>d\<close>, set to 0, and with tests that
  return, the recursion of \<^verbatim>\<open>_test\<close> returns, after at most two differences, with
  \<open>0 \<le> d \<le> 2\<close>. No path of the class creates that attribute.
\<close>

lemma hk_test_at_two:
  assumes "self_d s = Some dv" and "ival dv = 2"
    and "adf series = Inr p_adf" and "kpss series = Inr p_kpss"
  shows "\<exists>r. hk_test adf kpss s series = Some (Inr r) \<and> self_d r = Some dv"
  using assms by (subst hk_test.simps) simp

lemma hk_test_at_one:
  assumes "self_d s = Some dv" and "ival dv = 1"
    and "\<forall>xs. \<exists>p. adf xs = Inr p" and "\<forall>xs. \<exists>p. kpss xs = Inr p"
  shows "\<exists>r dv'. hk_test adf kpss s series = Some (Inr r) \<and> self_d r = Some dv'
           \<and> 1 \<le> ival dv' \<and> ival dv' \<le> 2"
proof -
  from assms(3,4) obtain p_adf p_kpss
    where tests: "adf series = Inr p_adf" "kpss series = Inr p_kpss"
    by blast
  from assms(3,4) obtain p_adf' p_kpss'
    where tests': "adf (diff_dropna series) = Inr p_adf'" "kpss (diff_dropna series) = Inr p_kpss'"
    by blast
  show ?thesis
  proof (cases "p_kpss < alpha s \<or> alpha s \<le> p_adf")
    case False
    with assms(1,2) tests show ?thesis by (subst hk_test.simps) simp
  next
    case True
    let ?s = "s\<lparr> p_values := (p_values s)(ival dv \<mapsto> (p_adf, p_kpss)),
                 self_d := Some (py_add dv (PyInt 1)) \<rparr>"
    have "self_d ?s = Some (py_add dv (PyInt 1))" and "ival (py_add dv (PyInt 1)) = 2"
      using assms(2) by (simp_all add: py_add_def)
    from hk_test_at_two [where adf = adf and kpss = kpss and series = "diff_dropna series",
        OF this tests'] obtain r
      where r: "hk_test adf kpss ?s (diff_dropna series) = Some (Inr r)"
        "self_d r = Some (py_add dv (PyInt 1))"
      by blast
    have "hk_test adf kpss s series = hk_test adf kpss ?s (diff_dropna series)"
      using True assms(1,2) tests by (subst hk_test.simps) simp
    with r assms(2) show ?thesis by (simp add: py_add_def)
  qed
qed

lemma hk_test_at_zero:
  assumes "self_d s = Some dv" and "ival dv = 0"
    and "\<forall>xs. \<exists>p. adf xs = Inr p" and "\<forall>xs. \<exists>p. kpss xs = Inr p"
  shows "\<exists>r dv'. hk_test adf kpss s series = Some (Inr r) \<and> self_d r = Some dv'
           \<and> 0 \<le> ival dv' \<and> ival dv' \<le> 2"
proof -
  from assms(3,4) obtain p_adf p_kpss
    where tests: "adf series = Inr p_adf" "kpss series = Inr p_kpss"
    by blast
  show ?thesis
  proof (cases "p_kpss < alpha s \<or> alpha s \<le> p_adf")
    case False
    with assms(1,2) tests show ?thesis by (subst hk_test.simps) simp
  next
    case True
    let ?s = "s\<lparr> p_values := (p_values s)(ival dv \<mapsto> (p_adf, p_kpss)),
                 self_d := Some (py_add dv (PyInt 1)) \<rparr>"
    have "self_d ?s = Some (py_add dv (PyInt 1))" and "ival (py_add dv (PyInt 1)) = 1"
      using assms(2) by (simp_all add: py_add_def)
    from hk_test_at_one [OF this assms(3,4), of "diff_dropna series"] obtain r dv'
      where r: "hk_test adf kpss ?s (diff_dropna series) = Some (Inr r)"
        "self_d r = Some dv'" "1 \<le> ival dv'" "ival dv' \<le> 2"
      by blast
    have "hk_test adf kpss s series = hk_test adf kpss ?s (diff_dropna series)"
      using True assms(1,2) tests by (subst hk_test.simps) simp
    with r show ?thesis by simp
  qed
qed

text \<open>
  C7. The estimator on a new object whose series fails the KPSS test at degree 0
  (\<open>p_kpss = 0.01 < alpha = 0.05\<close>): it does not difference, it raises AttributeError
  at the read of \<^verbatim>\<open>self.d\<close> in line 74, and so does \<^verbatim>\<open>find\<close>.
\<close>

theorem differencing_raises_AttributeError:
  "hk_get_differencing_degree (\<lambda>xs. Inr (1 / 2)) (\<lambda>xs. Inr (1 / 100)) example_self
     = Some (Inl AttributeError)
   \<and> hk_find example_fit (\<lambda>xs. Inr (1 / 2)) (\<lambda>xs. Inr (1 / 100)) example_self
     = Some (Inl AttributeError)"
  by (simp add: hk_find_def get_differencing_degree_init example_self_def)

theorem differencing_raises_AttributeError_witness:
  "hk_find example_fit (\<lambda>xs. Inr (1 / 2)) (\<lambda>xs. Inr (1 / 100)) example_self = Some (Inl AttributeError)"
  using differencing_raises_AttributeError by blast

section \<open>The correction at a denominator that is not positive\<close>

lemma fadd_PInf_cases: "fadd a PInf = PInf \<or> fadd a PInf = NaN"
  by (cases a) simp_all

lemma fadd_NaN [simp]: "fadd a NaN = NaN"
  by (cases a) simp_all

lemma not_flt_PInf [simp]: "\<not> flt PInf x"
  by (cases x) simp_all

lemma not_flt_NaN [simp]: "\<not> flt NaN x"
  by (cases x) simp_all

lemma correct_aic_zero_np:
  assumes zero: "sample_size self - param_count ord trend - 1 = 0"
    and np: "is_np (fst ord) \<or> is_np (snd (snd ord))"
  shows "hk_correct_aic self ord trend a = Inr PInf \<or> hk_correct_aic self ord trend a = Inr NaN"
proof -
  define k where "k = (if trend = ''c'' then PyInt 1 else PyInt 0)"
  define n where "n = py_add (py_add (py_add (fst ord) (snd (snd ord))) k) (PyInt 1)"
  define num where "num = py_mul (py_mul (PyInt 2) n) (py_add n (PyInt 1))"
  define den where "den = py_sub (py_sub (PyInt (int (length (ts self)))) n) (PyInt 1)"
  have n: "ival n = param_count ord trend"
    by (simp add: n_def k_def param_count_def py_add_def)
  have num: "ival num = 2 * (param_count ord trend * (param_count ord trend + 1))"
    by (simp add: num_def py_mul_def py_add_def n)
  have den: "ival den = 0"
    using zero by (simp add: den_def py_sub_def sample_size_def n)
  have npn: "is_np num" using np by (simp add: num_def n_def py_mul_def py_add_def)
  have nonneg: "0 \<le> ival num"
    using consecutive_product_nonneg [of "param_count ord trend"] by (simp add: num)
  have eq: "hk_correct_aic self ord trend a =
          (case py_truediv num den of Inl e \<Rightarrow> Inl e | Inr c \<Rightarrow> Inr (fadd a c))"
    by (simp add: hk_correct_aic_def Let_def num_def den_def n_def k_def)
  have "py_truediv num den = Inr PInf \<or> py_truediv num den = Inr NaN"
    using den npn nonneg by (simp add: py_truediv_def)
  then show ?thesis
  proof
    assume "py_truediv num den = Inr PInf"
    with eq have "hk_correct_aic self ord trend a = Inr (fadd a PInf)" by simp
    with fadd_PInf_cases [of a] show ?thesis by auto
  next
    assume "py_truediv num den = Inr NaN"
    with eq show ?thesis by simp
  qed
qed

text \<open>
  C3, as the code has it. \<^verbatim>\<open>_correct_aic\<close> has no guard on \<open>n - m - 1\<close>. Where
  \<open>n - m - 1 < 0\<close> it returns \<open>raw_aic + 2 * m * (m + 1) / (n - m - 1)\<close>, a finite value
  not above a finite \<open>raw_aic\<close>, which \<^verbatim>\<open>_fit\<close> then compares as any other. Where
  \<open>n - m - 1 = 0\<close> and \<open>p\<close> or \<open>q\<close> is a numpy integer, as for every candidate of the
  neighbourhood or grid, the value returned is \<open>+\<infinity>\<close> or NaN, \<^verbatim>\<open>_fit\<close> returns normally
  and the object is unchanged.
\<close>

theorem degenerate_correction:
  "(sample_size self - param_count ord trend - 1 < 0 \<longrightarrow>
      hk_correct_aic self ord trend (Fin r) =
        Inr (Fin (r + real_of_int (2 * param_count ord trend * (param_count ord trend + 1))
                      / real_of_int (sample_size self - param_count ord trend - 1)))
      \<and> r + real_of_int (2 * param_count ord trend * (param_count ord trend + 1))
              / real_of_int (sample_size self - param_count ord trend - 1) \<le> r)
   \<and> (sample_size self' - param_count ord' trend' - 1 = 0
        \<and> (is_np (fst ord') \<or> is_np (snd (snd ord'))) \<longrightarrow>
      (hk_correct_aic self' ord' trend' a = Inr PInf
         \<or> hk_correct_aic self' ord' trend' a = Inr NaN)
      \<and> (\<forall>m. fit ord' trend' = Fitted m \<longrightarrow> hk_fit fit self' ord' trend' = Inr self'))"
proof (intro conjI impI allI)
  let ?m = "param_count ord trend"
  let ?d = "sample_size self - ?m - 1"
  assume neg: "?d < 0"
  then show "hk_correct_aic self ord trend (Fin r) =
        Inr (Fin (r + real_of_int (2 * ?m * (?m + 1)) / real_of_int ?d))"
    by (simp add: correct_aic_nonzero)
  have "0 \<le> 2 * (?m * (?m + 1))"
    using consecutive_product_nonneg [of ?m] by simp
  then have "0 \<le> 2 * ?m * (?m + 1)" by (simp add: mult.assoc)
  then have "0 \<le> real_of_int (2 * ?m * (?m + 1))" by (simp only: of_int_0_le_iff)
  moreover from neg have "real_of_int ?d < 0" by simp
  ultimately have "real_of_int (2 * ?m * (?m + 1)) / real_of_int ?d \<le> 0"
    by (rule divide_nonneg_neg)
  then show "r + real_of_int (2 * ?m * (?m + 1)) / real_of_int ?d \<le> r" by simp
next
  assume "sample_size self' - param_count ord' trend' - 1 = 0
        \<and> (is_np (fst ord') \<or> is_np (snd (snd ord')))"
  then show "hk_correct_aic self' ord' trend' a = Inr PInf
         \<or> hk_correct_aic self' ord' trend' a = Inr NaN"
    by (intro correct_aic_zero_np) simp_all
next
  fix m
  assume deg: "sample_size self' - param_count ord' trend' - 1 = 0
        \<and> (is_np (fst ord') \<or> is_np (snd (snd ord')))"
    and fitted: "fit ord' trend' = Fitted m"
  from deg have "hk_correct_aic self' ord' trend' (aic m) = Inr PInf
         \<or> hk_correct_aic self' ord' trend' (aic m) = Inr NaN"
    by (intro correct_aic_zero_np) simp_all
  with fitted show "hk_fit fit self' ord' trend' = Inr self'"
    by (auto simp add: hk_fit_eq)
qed

text \<open>
  With two observations the seed \<open>(0, 0, 0)\<close> with a constant has \<open>n - m - 1 = -1\<close>: the
  correction is \<open>-12\<close>, the AICc 8 is finite and the candidate becomes the incumbent. With
  three observations \<open>n - m - 1 = 0\<close> on Python integers: ZeroDivisionError, which no
  handler of \<^verbatim>\<open>find\<close> catches.
\<close>

theorem degenerate_correction_counterexample:
  "sample_size (hk_init [1, 2] (1 / 20) (5, 1001 / 1000) False 0)
      - param_count (PyInt 0, PyInt 0, PyInt 0) ''c'' - 1 = - 1
   \<and> hk_correct_aic (hk_init [1, 2] (1 / 20) (5, 1001 / 1000) False 0)
        (PyInt 0, PyInt 0, PyInt 0) ''c'' (Fin 20) = Inr (Fin 8)
   \<and> (\<exists>self'. hk_fit example_fit (hk_init [1, 2] (1 / 20) (5, 1001 / 1000) False 0)
                 (PyInt 0, PyInt 0, PyInt 0) ''c'' = Inr self'
          \<and> aicc self' = Fin 8
          \<and> model self' = Some \<lparr> aic = Fin 20, arroots = [], maroots = [] \<rparr>
          \<and> order_trend (order self') = ''c'')
   \<and> sample_size (hk_init [1, 2, 3] (1 / 20) (5, 1001 / 1000) False 0)
      - param_count (PyInt 0, PyInt 0, PyInt 0) ''c'' - 1 = 0
   \<and> hk_correct_aic (hk_init [1, 2, 3] (1 / 20) (5, 1001 / 1000) False 0)
        (PyInt 0, PyInt 0, PyInt 0) ''c'' (Fin 20) = Inl ZeroDivisionError
   \<and> hk_find example_fit (\<lambda>xs. Inr (1 / 100)) (\<lambda>xs. Inr (1 / 2))
        (hk_init [1, 2, 3] (1 / 20) (5, 1001 / 1000) False 0) = Some (Inl ZeroDivisionError)"
proof (intro conjI)
  show "sample_size (hk_init [1, 2] (1 / 20) (5, 1001 / 1000) False 0)
      - param_count (PyInt 0, PyInt 0, PyInt 0) ''c'' - 1 = - 1"
    by (simp add: sample_size_def param_count_def)
  show "hk_correct_aic (hk_init [1, 2] (1 / 20) (5, 1001 / 1000) False 0)
        (PyInt 0, PyInt 0, PyInt 0) ''c'' (Fin 20) = Inr (Fin 8)"
    by (simp add: example_simps)
  show "\<exists>self'. hk_fit example_fit (hk_init [1, 2] (1 / 20) (5, 1001 / 1000) False 0)
                 (PyInt 0, PyInt 0, PyInt 0) ''c'' = Inr self'
          \<and> aicc self' = Fin 8
          \<and> model self' = Some \<lparr> aic = Fin 20, arroots = [], maroots = [] \<rparr>
          \<and> order_trend (order self') = ''c''"
    by (simp add: example_simps accepted_def)
  show "sample_size (hk_init [1, 2, 3] (1 / 20) (5, 1001 / 1000) False 0)
      - param_count (PyInt 0, PyInt 0, PyInt 0) ''c'' - 1 = 0"
    by (simp add: sample_size_def param_count_def)
  show "hk_correct_aic (hk_init [1, 2, 3] (1 / 20) (5, 1001 / 1000) False 0)
        (PyInt 0, PyInt 0, PyInt 0) ''c'' (Fin 20) = Inl ZeroDivisionError"
    by (simp add: example_simps)
  show "hk_find example_fit (\<lambda>xs. Inr (1 / 100)) (\<lambda>xs. Inr (1 / 2))
        (hk_init [1, 2, 3] (1 / 20) (5, 1001 / 1000) False 0) = Some (Inl ZeroDivisionError)"
    by (simp add: hk_find_def get_differencing_degree_init example_simps Let_def)
qed

theorem degenerate_correction_witness:
  "sample_size (hk_init [1, 2] (1 / 20) (5, 1001 / 1000) False 0)
      - param_count (PyInt 0, PyInt 0, PyInt 0) ''c'' - 1 < 0
   \<and> hk_correct_aic (hk_init [1, 2] (1 / 20) (5, 1001 / 1000) False 0)
        (PyInt 0, PyInt 0, PyInt 0) ''c'' (Fin 20) = Inr (Fin 8)
   \<and> sample_size (hk_init [1, 2, 3] (1 / 20) (5, 1001 / 1000) False 0)
      - param_count (NpInt 0, PyInt 0, NpInt 0) ''c'' - 1 = 0
   \<and> is_np (fst (NpInt 0, PyInt 0, NpInt 0))
   \<and> hk_correct_aic (hk_init [1, 2, 3] (1 / 20) (5, 1001 / 1000) False 0)
        (NpInt 0, PyInt 0, NpInt 0) ''c'' (Fin 20) = Inr PInf
   \<and> example_fit (NpInt 0, PyInt 0, NpInt 0) ''c''
        = Fitted \<lparr> aic = Fin 20, arroots = [], maroots = [] \<rparr>
   \<and> hk_fit example_fit (hk_init [1, 2, 3] (1 / 20) (5, 1001 / 1000) False 0)
        (NpInt 0, PyInt 0, NpInt 0) ''c''
        = Inr (hk_init [1, 2, 3] (1 / 20) (5, 1001 / 1000) False 0)"
proof -
  let ?s2 = "hk_init [1, 2] (1 / 20) (5, 1001 / 1000) False 0"
  let ?s3 = "hk_init [1, 2, 3] (1 / 20) (5, 1001 / 1000) False 0"
  have neg: "sample_size ?s2 - param_count (PyInt 0, PyInt 0, PyInt 0) ''c'' - 1 < 0"
    by (simp add: sample_size_def param_count_def)
  have zero: "sample_size ?s3 - param_count (NpInt 0, PyInt 0, NpInt 0) ''c'' - 1 = 0"
    by (simp add: sample_size_def param_count_def)
  have np: "is_np (fst (NpInt 0, PyInt 0, NpInt 0))" by simp
  have fitted: "example_fit (NpInt 0, PyInt 0, NpInt 0) ''c''
        = Fitted \<lparr> aic = Fin 20, arroots = [], maroots = [] \<rparr>"
    by (simp add: example_fit_def)
  have inf: "hk_correct_aic ?s3 (NpInt 0, PyInt 0, NpInt 0) ''c'' (Fin 20) = Inr PInf"
    by (simp add: example_simps)
  note D = degenerate_correction [where self = ?s2 and ord = "(PyInt 0, PyInt 0, PyInt 0)"
      and trend = "''c''" and r = 20 and self' = ?s3 and ord' = "(NpInt 0, PyInt 0, NpInt 0)"
      and trend' = "''c''" and a = "Fin 20" and fit = example_fit]
  from D neg have "hk_correct_aic ?s2 (PyInt 0, PyInt 0, PyInt 0) ''c'' (Fin 20) = Inr (Fin 8)"
    by (simp add: sample_size_def param_count_def)
  moreover from D zero np fitted
  have "hk_fit example_fit ?s3 (NpInt 0, PyInt 0, NpInt 0) ''c'' = Inr ?s3"
    by blast
  ultimately show ?thesis using neg zero np fitted inf by blast
qed

section \<open>Construction\<close>

text \<open>
  C4, as the code has it. The constructor checks nothing: for every series and every
  configuration it returns the object with the arguments stored, no model, the order
  \<open>(0, 0, 0)\<close> without constant and AICc \<open>+\<infinity>\<close>.
\<close>

theorem construction_never_fails:
  "\<exists>self. HyndmanKhandakar series a conds fs vb = Inr self
     \<and> ts self = series \<and> alpha self = a \<and> conditions self = conds
     \<and> full_search self = fs \<and> verbose self = vb
     \<and> model self = None \<and> aicc self = PInf
     \<and> order self = \<lparr> order_p = PyInt 0, order_d = PyInt 0, order_q = PyInt 0,
                       order_trend = ''nc'' \<rparr>
     \<and> p_values self = Map.empty"
  by (simp add: HyndmanKhandakar_def hk_init_def)

text \<open>
  The empty series with \<open>max_order = -1\<close> is accepted.
\<close>

theorem construction_counterexample:
  "HyndmanKhandakar [] (1 / 20) (- 1, 1001 / 1000) False 0
     = Inr (hk_init [] (1 / 20) (- 1, 1001 / 1000) False 0)
   \<and> \<not> isl (HyndmanKhandakar [] (1 / 20) (- 1, 1001 / 1000) False 0)"
  by (simp add: HyndmanKhandakar_def)

end
